theory Spec2Isabelle
  imports Complex_Main "HOL-Library.Multiset"
begin

section \<open>Data model\<close>

text \<open>
  The embedding follows \<^verbatim>\<open>src/models\<close>, \<^verbatim>\<open>src/arbitrage\<close> and
  \<^verbatim>\<open>src/matching\<close>. Python's \<^verbatim>\<open>float\<close> is read as an exact real number:
  prices, sizes, scores and thresholds are of type \<^typ>\<open>real\<close>, and \<^verbatim>\<open>+\<close>, \<^verbatim>\<open>-\<close>,
  \<^verbatim>\<open>*\<close> are the exact operations. Rounding of binary64 arithmetic, infinities and NaN
  are outside the model.
\<close>

datatype platform = KALSHI | POLYMARKET

text \<open>
  \<^verbatim>\<open>UnifiedMarket\<close>. The fields \<^verbatim>\<open>close_time\<close> and \<^verbatim>\<open>raw_data\<close> are read by neither
  the matcher nor the calculator and are left out. Python compares two markets by
  \<^verbatim>\<open>(platform, market_id)\<close> only; that pair is \<open>market_key\<close>.
\<close>

record unified_market =
  platform :: platform
  market_id :: string
  title :: string
  yes_token_id :: "string option"
  no_token_id :: "string option"
  yes_ask :: "real option"
  no_ask :: "real option"

definition market_key :: "unified_market \<Rightarrow> platform \<times> string" where
  "market_key m = (platform m, market_id m)"

text \<open>\<^verbatim>\<open>OrderbookLevel\<close>; the field \<^verbatim>\<open>size\<close> is \<open>size_level\<close> here.\<close>

record orderbook_level =
  price :: real
  size_level :: real

text \<open>\<^verbatim>\<open>Orderbook\<close>; its \<^verbatim>\<open>market_id\<close> is \<open>book_market_id\<close> here.\<close>

record orderbook =
  book_market_id :: string
  yes_bids :: "orderbook_level list"
  yes_asks :: "orderbook_level list"
  no_bids :: "orderbook_level list"
  no_asks :: "orderbook_level list"

text \<open>\<^verbatim>\<open>ArbitrageLevel\<close>.\<close>

record arbitrage_level =
  buy_yes_platform :: platform
  buy_yes_price :: real
  buy_no_platform :: platform
  buy_no_price :: real
  quantity :: real
  total_cost :: real
  profit_percentage :: real
  max_profit_dollars :: real

text \<open>\<^verbatim>\<open>MarketPair\<close> (src/matching/fuzzy_matcher.py).\<close>

record market_pair =
  kalshi_market :: unified_market
  poly_market :: unified_market
  match_score :: real

text \<open>
  \<^verbatim>\<open>ArbitrageOpportunity\<close>; the fields carry the prefix \<open>opp_\<close> because the pair has
  fields of the same names.
\<close>

record arbitrage_opportunity =
  opp_kalshi_market :: unified_market
  opp_poly_market :: unified_market
  opp_match_score :: real
  opp_levels :: "arbitrage_level list"

definition best_profit_percentage :: "arbitrage_opportunity \<Rightarrow> real" where
  "best_profit_percentage opp =
     (case opp_levels opp of [] \<Rightarrow> 0 | l # _ \<Rightarrow> profit_percentage l)"

section \<open>The arbitrage walk\<close>

text \<open>
  \<^verbatim>\<open>ArbitrageCalculator._walk_orderbook\<close>. The local variables of the loop are the
  fields of \<open>walk_state\<close>: the two lists of \<^verbatim>\<open>(price, remaining size)\<close> tuples, the two
  indices and the list of levels emitted so far.
\<close>

record walk_state =
  yes_remaining :: "(real \<times> real) list"
  no_remaining :: "(real \<times> real) list"
  yes_idx :: nat
  no_idx :: nat
  levels :: "arbitrage_level list"

text \<open>Python's \<^verbatim>\<open>min(a, b)\<close> returns \<open>a\<close> unless \<open>b < a\<close>.\<close>

definition py_min :: "real \<Rightarrow> real \<Rightarrow> real" where
  "py_min a b = (if b < a then b else a)"

text \<open>The condition of the \<^verbatim>\<open>while\<close> loop.\<close>

definition walk_cond :: "walk_state \<Rightarrow> bool" where
  "walk_cond s \<longleftrightarrow> yes_idx s < length (yes_remaining s) \<and> no_idx s < length (no_remaining s)"

text \<open>
  One pass through the loop body, entered with \<open>walk_cond s\<close>. \<open>None\<close> is the
  \<^verbatim>\<open>break\<close>; otherwise the state at the end of the body is returned.
\<close>

definition walk_body :: "real \<Rightarrow> platform \<Rightarrow> platform \<Rightarrow> walk_state \<Rightarrow> walk_state option" where
  "walk_body min_profit_threshold yes_platform no_platform s =
     (let (yes_price, yes_qty) = yes_remaining s ! yes_idx s;
          (no_price, no_qty) = no_remaining s ! no_idx s;
          total_cost = yes_price + no_price;
          gross_profit_pct = 1 - total_cost
      in if gross_profit_pct < min_profit_threshold then None
         else
           (let qty = py_min yes_qty no_qty;
                s1 = (if qty > 0 then
                        s\<lparr>levels := levels s @
                             [\<lparr>buy_yes_platform = yes_platform,
                               buy_yes_price = yes_price,
                               buy_no_platform = no_platform,
                               buy_no_price = no_price,
                               quantity = qty,
                               total_cost = total_cost,
                               profit_percentage = gross_profit_pct,
                               max_profit_dollars = qty * gross_profit_pct\<rparr>],
                          yes_remaining := (yes_remaining s)[yes_idx s := (yes_price, yes_qty - qty)],
                          no_remaining := (no_remaining s)[no_idx s := (no_price, no_qty - qty)]\<rparr>
                      else s);
                s2 = (if snd (yes_remaining s1 ! yes_idx s1) \<le> 0
                      then s1\<lparr>yes_idx := yes_idx s1 + 1\<rparr> else s1);
                s3 = (if snd (no_remaining s2 ! no_idx s2) \<le> 0
                      then s2\<lparr>no_idx := no_idx s2 + 1\<rparr> else s2)
            in Some s3))"

text \<open>
  Every completed pass moves at least one of the two indices forward, and moves
  each by at most one; the lists keep their lengths.
\<close>

lemma walk_body_advances:
  assumes "walk_cond s" and "walk_body thr yp np s = Some s'"
  shows "length (yes_remaining s') = length (yes_remaining s)"
    and "length (no_remaining s') = length (no_remaining s)"
    and "yes_idx s \<le> yes_idx s'" and "yes_idx s' \<le> yes_idx s + 1"
    and "no_idx s \<le> no_idx s'" and "no_idx s' \<le> no_idx s + 1"
    and "yes_idx s + no_idx s < yes_idx s' + no_idx s'"
  using assms
  by (auto simp: walk_body_def walk_cond_def py_min_def Let_def
           split: prod.splits if_splits)

text \<open>The number of ladder elements at or after the two indices.\<close>

definition walk_measure :: "walk_state \<Rightarrow> nat" where
  "walk_measure s =
     (length (yes_remaining s) - yes_idx s) + (length (no_remaining s) - no_idx s)"

lemma walk_body_measure:
  assumes "walk_cond s" and "walk_body thr yp np s = Some s'"
  shows "walk_measure s' < walk_measure s"
  using walk_body_advances [OF assms] assms(1)
  unfolding walk_measure_def walk_cond_def by linarith

text \<open>The \<^verbatim>\<open>while\<close> loop; it returns \<^verbatim>\<open>levels\<close>.\<close>

function walk_loop :: "real \<Rightarrow> platform \<Rightarrow> platform \<Rightarrow> walk_state \<Rightarrow> arbitrage_level list" where
  "walk_loop min_profit_threshold yes_platform no_platform s =
     (if walk_cond s then
        (case walk_body min_profit_threshold yes_platform no_platform s of
           None \<Rightarrow> levels s
         | Some s' \<Rightarrow> walk_loop min_profit_threshold yes_platform no_platform s')
      else levels s)"
  by pat_completeness auto
termination
  by (relation "measure (\<lambda>(thr, yp, np, s). walk_measure s)")
     (simp_all add: walk_body_measure)

declare walk_loop.simps [simp del]

text \<open>
  The same loop, counting how often the body is entered (a pass that ends in
  \<^verbatim>\<open>break\<close> is counted).
\<close>

function walk_iterations :: "real \<Rightarrow> platform \<Rightarrow> platform \<Rightarrow> walk_state \<Rightarrow> nat" where
  "walk_iterations min_profit_threshold yes_platform no_platform s =
     (if walk_cond s then
        (case walk_body min_profit_threshold yes_platform no_platform s of
           None \<Rightarrow> 1
         | Some s' \<Rightarrow> 1 + walk_iterations min_profit_threshold yes_platform no_platform s')
      else 0)"
  by pat_completeness auto
termination
  by (relation "measure (\<lambda>(thr, yp, np, s). walk_measure s)")
     (simp_all add: walk_body_measure)

declare walk_iterations.simps [simp del]

text \<open>The state before the first pass: copies of the two ladders, both indices 0.\<close>

definition walk_init :: "orderbook_level list \<Rightarrow> orderbook_level list \<Rightarrow> walk_state" where
  "walk_init yes_asks_in no_asks_in =
     \<lparr>yes_remaining = map (\<lambda>lvl. (price lvl, size_level lvl)) yes_asks_in,
      no_remaining = map (\<lambda>lvl. (price lvl, size_level lvl)) no_asks_in,
      yes_idx = 0,
      no_idx = 0,
      levels = []\<rparr>"

definition walk_orderbook ::
  "real \<Rightarrow> orderbook_level list \<Rightarrow> orderbook_level list \<Rightarrow> platform \<Rightarrow> platform
     \<Rightarrow> arbitrage_level list" where
  "walk_orderbook min_profit_threshold yes_asks_in no_asks_in yes_platform no_platform =
     walk_loop min_profit_threshold yes_platform no_platform (walk_init yes_asks_in no_asks_in)"

text \<open>
  Quantities used in the proofs: the gross profit of the two heads, the sizes left
  at or after each index, and non-negativity of all remaining sizes.
\<close>

definition walk_gross :: "walk_state \<Rightarrow> real" where
  "walk_gross s = 1 - (fst (yes_remaining s ! yes_idx s) + fst (no_remaining s ! no_idx s))"




section \<open>Opportunities\<close>

text \<open>
  \<^verbatim>\<open>ArbitrageCalculator.calculate_opportunity\<close>. \<^verbatim>\<open>list.sort(key=..., reverse=True)\<close> is
  stable and keeps equal keys in their order, as \<open>sort_key\<close> on the negated key does.
\<close>

definition calculate_opportunity ::
  "real \<Rightarrow> market_pair \<Rightarrow> orderbook \<Rightarrow> orderbook \<Rightarrow> arbitrage_opportunity option" where
  "calculate_opportunity min_profit_threshold pair kalshi_orderbook poly_orderbook =
     (let levels_1 = walk_orderbook min_profit_threshold
                       (yes_asks kalshi_orderbook) (no_asks poly_orderbook) KALSHI POLYMARKET;
          levels_2 = walk_orderbook min_profit_threshold
                       (yes_asks poly_orderbook) (no_asks kalshi_orderbook) POLYMARKET KALSHI;
          all_levels = sort_key (\<lambda>x. - profit_percentage x) (levels_1 @ levels_2)
      in if all_levels = [] then None
         else Some \<lparr>opp_kalshi_market = kalshi_market pair,
                    opp_poly_market = poly_market pair,
                    opp_match_score = match_score pair,
                    opp_levels = all_levels\<rparr>)"

text \<open>
  The body of the \<^verbatim>\<open>for pair in pairs\<close> loop of \<^verbatim>\<open>find_all_opportunities\<close>. The two
  dictionaries are maps; \<^verbatim>\<open>dict.get\<close> gives \<open>None\<close> for a missing key. An \<^verbatim>\<open>Orderbook\<close>
  and an \<^verbatim>\<open>ArbitrageOpportunity\<close> are dataclasses without \<^verbatim>\<open>__bool__\<close> or \<^verbatim>\<open>__len__\<close>,
  so the tests \<^verbatim>\<open>if kalshi_book and poly_book\<close> and \<^verbatim>\<open>if opp\<close> ask whether the value
  is not \<^verbatim>\<open>None\<close>.
\<close>

definition opportunity_step ::
  "real \<Rightarrow> (string \<rightharpoonup> orderbook) \<Rightarrow> (string \<rightharpoonup> orderbook)
     \<Rightarrow> arbitrage_opportunity list \<Rightarrow> market_pair \<Rightarrow> arbitrage_opportunity list" where
  "opportunity_step min_profit_threshold kalshi_orderbooks poly_orderbooks opportunities pair =
     (let kalshi_book = kalshi_orderbooks (market_id (kalshi_market pair));
          poly_book = poly_orderbooks (market_id (poly_market pair))
      in case (kalshi_book, poly_book) of
           (Some kb, Some pb) \<Rightarrow>
             (case calculate_opportunity min_profit_threshold pair kb pb of
                Some opp \<Rightarrow> opportunities @ [opp]
              | None \<Rightarrow> opportunities)
         | _ \<Rightarrow> opportunities)"

definition find_all_opportunities ::
  "real \<Rightarrow> market_pair list \<Rightarrow> (string \<rightharpoonup> orderbook) \<Rightarrow> (string \<rightharpoonup> orderbook)
     \<Rightarrow> arbitrage_opportunity list" where
  "find_all_opportunities min_profit_threshold pairs kalshi_orderbooks poly_orderbooks =
     (let opportunities =
            foldl (opportunity_step min_profit_threshold kalshi_orderbooks poly_orderbooks) [] pairs
      in sort_key (\<lambda>x. - best_profit_percentage x) opportunities)"

text \<open>
  What one pair contributes to the list: the opportunity computed from its two books,
  or nothing when a book is missing or no level exists.
\<close>

definition pair_opportunity ::
  "real \<Rightarrow> (string \<rightharpoonup> orderbook) \<Rightarrow> (string \<rightharpoonup> orderbook) \<Rightarrow> market_pair
     \<Rightarrow> arbitrage_opportunity option" where
  "pair_opportunity thr kbs pbs pair =
     (case (kbs (market_id (kalshi_market pair)), pbs (market_id (poly_market pair))) of
        (Some kb, Some pb) \<Rightarrow> calculate_opportunity thr pair kb pb
      | _ \<Rightarrow> None)"

section \<open>Fees\<close>

text \<open>
  \<^verbatim>\<open>FeeCalculator.kalshi_taker_fee\<close>, with \<^verbatim>\<open>math.ceil\<close> as the ceiling of the exact
  product. The function has no \<^verbatim>\<open>raise\<close>: it returns a number for every argument.
\<close>

definition KALSHI_TAKER_COEFFICIENT :: real where
  "KALSHI_TAKER_COEFFICIENT = 7 / 100"

definition kalshi_taker_fee :: "int \<Rightarrow> real \<Rightarrow> real" where
  "kalshi_taker_fee contracts price_in =
     (let fee_cents = \<lceil>KALSHI_TAKER_COEFFICIENT * of_int contracts * price_in * (1 - price_in) * 100\<rceil>
      in of_int fee_cents / 100)"

section \<open>The title matcher\<close>

text \<open>
  \<^verbatim>\<open>FuzzyMatcher.find_matches\<close> calls Python's string library, rapidfuzz and numpy.
  What the repository does not define is a parameter: \<open>str_lower\<close> is \<^verbatim>\<open>str.lower\<close>,
  \<open>sub_nonword\<close> is \<^verbatim>\<open>re.sub(r"[^\w\s]", " ", _)\<close>, \<open>join_split\<close> is
  \<^verbatim>\<open>" ".join(_.split())\<close>, \<open>token_sort_ratio\<close> is the scorer that \<^verbatim>\<open>cdist\<close> applies to
  every cell, and \<open>np_argsort\<close> is \<^verbatim>\<open>np.argsort\<close>, whose order among equal keys numpy
  leaves open.
\<close>

record library =
  str_lower :: "string \<Rightarrow> string"
  sub_nonword :: "string \<Rightarrow> string"
  join_split :: "string \<Rightarrow> string"
  token_sort_ratio :: "string \<Rightarrow> string \<Rightarrow> real"
  np_argsort :: "real list \<Rightarrow> nat list"

text \<open>What numpy promises of \<^verbatim>\<open>argsort\<close>: a permutation of the indices, keys ascending.\<close>

definition argsort_spec :: "(real list \<Rightarrow> nat list) \<Rightarrow> bool" where
  "argsort_spec f \<longleftrightarrow>
     (\<forall>xs. mset (f xs) = mset [0..<length xs] \<and> sorted (map (\<lambda>i. xs ! i) (f xs)))"

text \<open>\<^verbatim>\<open>UnifiedMarket.normalized_title\<close>.\<close>

definition normalized_title :: "library \<Rightarrow> unified_market \<Rightarrow> string" where
  "normalized_title lib m = join_split lib (sub_nonword lib (str_lower lib (title m)))"

text \<open>\<^verbatim>\<open>cdist(kalshi_titles, poly_titles, scorer=fuzz.token_sort_ratio)\<close>: one row per
  Kalshi title.\<close>

definition cdist :: "library \<Rightarrow> string list \<Rightarrow> string list \<Rightarrow> real list list" where
  "cdist lib kalshi_titles poly_titles =
     map (\<lambda>k. map (\<lambda>p. token_sort_ratio lib k p) poly_titles) kalshi_titles"

text \<open>
  \<^verbatim>\<open>np.argmax\<close> of one row: the first index that holds the maximum. A later index
  replaces the best one only when its value is strictly greater.
\<close>

definition argmax_first :: "real list \<Rightarrow> nat" where
  "argmax_first row = fold (\<lambda>i best. if row ! best < row ! i then i else best) [0..<length row] 0"

text \<open>\<^verbatim>\<open>np.max\<close> of one row; the rows are not empty when it is called.\<close>

fun np_max :: "real list \<Rightarrow> real" where
  "np_max (x # xs) = fold max xs x"

text \<open>
  The body of \<^verbatim>\<open>for kalshi_idx in sorted_indices\<close>; the state is \<^verbatim>\<open>matches\<close> and
  \<^verbatim>\<open>matched_poly_indices\<close>.
\<close>

definition match_step ::
  "int \<Rightarrow> unified_market list \<Rightarrow> unified_market list \<Rightarrow> nat list \<Rightarrow> real list
     \<Rightarrow> market_pair list \<times> nat set \<Rightarrow> nat \<Rightarrow> market_pair list \<times> nat set" where
  "match_step threshold kalshi_markets poly_markets best_poly_indices best_scores st kalshi_idx =
     (let (matches, matched_poly_indices) = st;
          poly_idx = best_poly_indices ! kalshi_idx;
          score = best_scores ! kalshi_idx
      in if of_int threshold \<le> score \<and> poly_idx \<notin> matched_poly_indices then
           (matches @ [\<lparr>kalshi_market = kalshi_markets ! kalshi_idx,
                        poly_market = poly_markets ! poly_idx,
                        match_score = score\<rparr>],
            insert poly_idx matched_poly_indices)
         else (matches, matched_poly_indices))"

definition find_matches ::
  "library \<Rightarrow> int \<Rightarrow> unified_market list \<Rightarrow> unified_market list \<Rightarrow> market_pair list" where
  "find_matches lib threshold kalshi_markets poly_markets =
     (if kalshi_markets = [] \<or> poly_markets = [] then []
      else
        (let kalshi_titles = map (normalized_title lib) kalshi_markets;
             poly_titles = map (normalized_title lib) poly_markets;
             scores = cdist lib kalshi_titles poly_titles;
             best_poly_indices = map argmax_first scores;
             best_scores = map np_max scores;
             sorted_indices = rev (np_argsort lib best_scores)
         in fst (foldl (match_step threshold kalshi_markets poly_markets
                          best_poly_indices best_scores)
                   ([], {}) sorted_indices)))"

text \<open>
  One cell of the matrix, written on the two markets: the score of their normalised
  titles.
\<close>

definition title_score :: "library \<Rightarrow> unified_market \<Rightarrow> unified_market \<Rightarrow> real" where
  "title_score lib k p = token_sort_ratio lib (normalized_title lib k) (normalized_title lib p)"

text \<open>
  The matches are built from pairs of list positions \<open>(i, j)\<close>: position \<open>i\<close> of
  \<^verbatim>\<open>kalshi_markets\<close> with position \<open>j\<close> of \<^verbatim>\<open>poly_markets\<close>.
\<close>

definition pair_of ::
  "unified_market list \<Rightarrow> unified_market list \<Rightarrow> real list \<Rightarrow> nat \<times> nat \<Rightarrow> market_pair" where
  "pair_of K P bs ij =
     \<lparr>kalshi_market = K ! fst ij, poly_market = P ! snd ij, match_score = bs ! fst ij\<rparr>"

subsection \<open>Libraries and markets for worked inputs\<close>

text \<open>
  A stable \<^verbatim>\<open>argsort\<close>; numpy's answer for keys that are all distinct, and its answer
  on two equal keys.
\<close>

definition stable_argsort :: "real list \<Rightarrow> nat list" where
  "stable_argsort xs = sort_key (\<lambda>i. xs ! i) [0..<length xs]"

text \<open>A market with the three fields the matcher reads.\<close>

definition market :: "platform \<Rightarrow> string \<Rightarrow> string \<Rightarrow> unified_market" where
  "market pf mid ttl =
     \<lparr>platform = pf, market_id = mid, title = ttl, yes_token_id = None, no_token_id = None,
      yes_ask = None, no_ask = None\<rparr>"

text \<open>
  For titles that are lower-case words without punctuation and with single spaces,
  normalisation changes nothing; \<^verbatim>\<open>token_sort_ratio\<close> is 100 on equal titles and 0 on
  titles without a common character, such as \<^verbatim>\<open>"aaa"\<close> and \<^verbatim>\<open>"bbb"\<close>.
\<close>

definition exact_title_library :: library where
  "exact_title_library =
     \<lparr>str_lower = (\<lambda>t. t), sub_nonword = (\<lambda>t. t), join_split = (\<lambda>t. t),
      token_sort_ratio = (\<lambda>a b. if a = b then 100 else 0),
      np_argsort = stable_argsort\<rparr>"

text \<open>Scores as in scenario D: 90 and 85 against one market, 81 against another.\<close>

definition scenario_D_library :: library where
  "scenario_D_library =
     \<lparr>str_lower = (\<lambda>t. t), sub_nonword = (\<lambda>t. t), join_split = (\<lambda>t. t),
      token_sort_ratio = (\<lambda>a b. if b = ''b1'' then (if a = ''a1'' then 90 else 85)
                                else (if a = ''a2'' then 81 else 10)),
      np_argsort = stable_argsort\<rparr>"

text \<open>An order book with ask ladders only, two matched pairs and the books fetched for them.\<close>

definition book :: "string \<Rightarrow> orderbook_level list \<Rightarrow> orderbook_level list \<Rightarrow> orderbook" where
  "book mid ya na = \<lparr>book_market_id = mid, yes_bids = [], yes_asks = ya, no_bids = [], no_asks = na\<rparr>"

definition pair_with_books :: market_pair where
  "pair_with_books = \<lparr>kalshi_market = market KALSHI ''K1'' ''fed cut'',
                       poly_market = market POLYMARKET ''P1'' ''fed cut'', match_score = 100\<rparr>"

definition pair_without_book :: market_pair where
  "pair_without_book = \<lparr>kalshi_market = market KALSHI ''K2'' ''rain'',
                         poly_market = market POLYMARKET ''P2'' ''rain'', match_score = 100\<rparr>"

definition kalshi_books :: "string \<rightharpoonup> orderbook" where
  "kalshi_books =
     [''K1'' \<mapsto> book ''K1'' [\<lparr>price = 1/4, size_level = 50\<rparr>] [\<lparr>price = 3/4, size_level = 5\<rparr>],
      ''K2'' \<mapsto> book ''K2'' [\<lparr>price = 1/8, size_level = 50\<rparr>] [\<lparr>price = 1/8, size_level = 5\<rparr>]]"

definition poly_books :: "string \<rightharpoonup> orderbook" where
  "poly_books =
     [''P1'' \<mapsto> book ''P1'' [\<lparr>price = 1/2, size_level = 10\<rparr>] [\<lparr>price = 1/2, size_level = 50\<rparr>]]"

section \<open>Properties of the walk\<close>

subsection \<open>One pass of the loop\<close>

lemma walk_body_None:
  "walk_body thr yp np s = None \<longleftrightarrow> walk_gross s < thr"
  by (auto simp: walk_body_def walk_gross_def Let_def split: prod.splits)

lemma map_fst_update_same:
  "fst (xs ! i) = p \<Longrightarrow> map fst (xs[i := (p, q)]) = map fst xs"
  by (cases "i < length xs") (simp_all add: map_update list_update_same_conv list_update_beyond)

lemma walk_body_prices:
  assumes "walk_body thr yp np s = Some s'"
  shows "map fst (yes_remaining s') = map fst (yes_remaining s)"
    and "map fst (no_remaining s') = map fst (no_remaining s)"
  using assms
  by (auto simp: walk_body_def Let_def map_fst_update_same
           split: prod.splits if_splits)

lemma walk_body_levels:
  assumes "walk_body thr yp np s = Some s'"
  shows "thr \<le> walk_gross s"
    and "levels s' = levels s \<or>
         (\<exists>lvl. levels s' = levels s @ [lvl] \<and> profit_percentage lvl = walk_gross s \<and>
                0 < quantity lvl)"
  using assms
  by (auto simp: walk_body_def walk_gross_def Let_def split: prod.splits if_splits)

lemma walk_gross_mono:
  assumes "sorted (map fst (yes_remaining s))" "sorted (map fst (no_remaining s))"
    and "walk_cond s" "walk_body thr yp np s = Some s'" "walk_cond s'"
  shows "walk_gross s' \<le> walk_gross s"
proof -
  note adv = walk_body_advances [OF assms(3,4)]
  note pr = walk_body_prices [OF assms(4)]
  from assms(5) have r: "yes_idx s' < length (yes_remaining s')" "no_idx s' < length (no_remaining s')"
    by (simp_all add: walk_cond_def)
  have "map fst (yes_remaining s) ! yes_idx s \<le> map fst (yes_remaining s) ! yes_idx s'"
    using assms(1) adv r by (intro sorted_nth_mono) simp_all
  moreover have "map fst (no_remaining s) ! no_idx s \<le> map fst (no_remaining s) ! no_idx s'"
    using assms(2) adv r by (intro sorted_nth_mono) simp_all
  moreover have "map fst (yes_remaining s) ! yes_idx s' = fst (yes_remaining s' ! yes_idx s')"
    using r by (simp flip: pr)
  moreover have "map fst (no_remaining s) ! no_idx s' = fst (no_remaining s' ! no_idx s')"
    using r by (simp flip: pr)
  moreover have "map fst (yes_remaining s) ! yes_idx s = fst (yes_remaining s ! yes_idx s)"
    "map fst (no_remaining s) ! no_idx s = fst (no_remaining s ! no_idx s)"
    using assms(3) by (simp_all add: walk_cond_def)
  ultimately show ?thesis by (simp add: walk_gross_def)
qed

lemma walk_loop_decomp:
  assumes "sorted (map fst (yes_remaining s))" "sorted (map fst (no_remaining s))"
  shows "\<exists>new. walk_loop thr yp np s = levels s @ new \<and>
           (\<not> walk_cond s \<longrightarrow> new = []) \<and>
           (\<forall>l\<in>set new. thr \<le> profit_percentage l \<and> profit_percentage l \<le> walk_gross s
                \<and> 0 < quantity l) \<and>
           sorted_wrt (\<lambda>a b. profit_percentage b \<le> profit_percentage a) new"
  using assms
proof (induction thr yp np s rule: walk_loop.induct)
  case (1 thr yp np s)
  show ?case
  proof (cases "walk_cond s")
    case False
    then show ?thesis by (simp add: walk_loop.simps[of _ _ _ s])
  next
    case c: True
    show ?thesis
    proof (cases "walk_body thr yp np s")
      case None
      with c show ?thesis by (simp add: walk_loop.simps[of _ _ _ s])
    next
      case (Some s')
      note pr = walk_body_prices [OF Some]
      from "1.IH" [OF c Some] "1.prems" pr
      obtain new' where n: "walk_loop thr yp np s' = levels s' @ new'"
        "\<not> walk_cond s' \<longrightarrow> new' = []"
        "\<forall>l\<in>set new'. thr \<le> profit_percentage l \<and> profit_percentage l \<le> walk_gross s' \<and> 0 < quantity l"
        "sorted_wrt (\<lambda>a b. profit_percentage b \<le> profit_percentage a) new'"
        by auto
      have le: "\<forall>l\<in>set new'. profit_percentage l \<le> walk_gross s"
      proof (cases "walk_cond s'")
        case True
        from walk_gross_mono [OF "1.prems" c Some True] n(3) show ?thesis by fastforce
      next
        case False
        with n(2) show ?thesis by simp
      qed
      have w: "walk_loop thr yp np s = walk_loop thr yp np s'"
        using c Some by (simp add: walk_loop.simps[of _ _ _ s])
      from walk_body_levels [OF Some] have thr: "thr \<le> walk_gross s"
        and dj: "levels s' = levels s \<or>
         (\<exists>lvl. levels s' = levels s @ [lvl] \<and> profit_percentage lvl = walk_gross s \<and>
                0 < quantity lvl)" by auto
      from dj show ?thesis
      proof
        assume "levels s' = levels s"
        with w n le c show ?thesis by auto
      next
        assume "\<exists>lvl. levels s' = levels s @ [lvl] \<and> profit_percentage lvl = walk_gross s \<and>
                0 < quantity lvl"
        then obtain lvl where l: "levels s' = levels s @ [lvl]" "profit_percentage lvl = walk_gross s"
          "0 < quantity lvl" by auto
        have "walk_loop thr yp np s = levels s @ (lvl # new')" using w n(1) l(1) by simp
        moreover have "sorted_wrt (\<lambda>a b. profit_percentage b \<le> profit_percentage a) (lvl # new')"
          using n(4) le l(2) by simp
        moreover have "\<forall>l\<in>set (lvl # new'). thr \<le> profit_percentage l \<and> profit_percentage l \<le> walk_gross s \<and> 0 < quantity l"
          using n(3) le l thr by simp
        ultimately show ?thesis using c by blast
      qed
    qed
  qed
qed

lemma walk_body_thr:
  "\<not> walk_gross s < thr \<Longrightarrow> \<not> walk_gross s < thr0 \<Longrightarrow>
     walk_body thr yp np s = walk_body thr0 yp np s"
  by (auto simp: walk_body_def walk_gross_def Let_def split: prod.splits)

lemma takeWhile_all_fail: "\<forall>x\<in>set xs. \<not> P x \<Longrightarrow> takeWhile P xs = []"
  by (cases xs) simp_all

lemma takeWhile_all_pass: "\<forall>x\<in>set xs. P x \<Longrightarrow> takeWhile P xs = xs"
  by (simp add: takeWhile_eq_all_conv)

lemma walk_loop_takeWhile:
  assumes "sorted (map fst (yes_remaining s))" "sorted (map fst (no_remaining s))"
    and "thr0 \<le> thr" and "\<forall>l\<in>set (levels s). thr \<le> profit_percentage l"
  shows "walk_loop thr yp np s =
           takeWhile (\<lambda>l. thr \<le> profit_percentage l) (walk_loop thr0 yp np s)"
  using assms
proof (induction thr0 yp np s rule: walk_loop.induct)
  case (1 thr0 yp np s)
  let ?P = "\<lambda>l. thr \<le> profit_percentage l"
  show ?case
  proof (cases "walk_cond s")
    case False
    with "1.prems"(4) show ?thesis
      by (simp add: walk_loop.simps[of _ _ _ s] takeWhile_all_pass)
  next
    case c: True
    show ?thesis
    proof (cases "walk_gross s < thr")
      case True
      then have "walk_body thr yp np s = None" by (simp add: walk_body_None)
      then have l: "walk_loop thr yp np s = levels s"
        using c by (simp add: walk_loop.simps[of thr _ _ s])
      from walk_loop_decomp [OF "1.prems"(1,2), of thr0 yp np]
      obtain new where n: "walk_loop thr0 yp np s = levels s @ new"
        "\<forall>l\<in>set new. profit_percentage l \<le> walk_gross s" by auto
      from n(2) True have "\<forall>l\<in>set new. \<not> ?P l" by fastforce
      then have "takeWhile ?P new = []" by (rule takeWhile_all_fail)
      with n(1) "1.prems"(4) l show ?thesis by simp
    next
      case False
      with "1.prems"(3) have f0: "\<not> walk_gross s < thr0" by simp
      then obtain s' where b0: "walk_body thr0 yp np s = Some s'"
        using walk_body_None [of thr0 yp np s] by (cases "walk_body thr0 yp np s") auto
      with walk_body_thr [OF False f0, of yp np] have b: "walk_body thr yp np s = Some s'"
        by simp
      note pr = walk_body_prices [OF b0]
      from walk_body_levels(2) [OF b0] "1.prems"(4) False
      have lv: "\<forall>l\<in>set (levels s'). thr \<le> profit_percentage l" by auto
      from "1.IH" [OF c b0] "1.prems"(1,2,3) pr lv
      have "walk_loop thr yp np s' = takeWhile ?P (walk_loop thr0 yp np s')" by simp
      then show ?thesis
        using c b b0 by (simp add: walk_loop.simps[of _ _ _ s])
    qed
  qed
qed

lemma walk_orderbook_init: "walk_orderbook thr ya na yp np = walk_loop thr yp np (walk_init ya na)"
  by (simp add: walk_orderbook_def)

lemma walk_init_prices:
  "map fst (yes_remaining (walk_init ya na)) = map price ya"
  "map fst (no_remaining (walk_init ya na)) = map price na"
  "levels (walk_init ya na) = []"
  by (simp_all add: walk_init_def comp_def)

subsection \<open>Iterations\<close>

lemma walk_iterations_le: "walk_iterations thr yp np s \<le> walk_measure s"
proof (induction thr yp np s rule: walk_iterations.induct)
  case (1 thr yp np s)
  show ?case
  proof (cases "walk_cond s")
    case False
    then show ?thesis by (simp add: walk_iterations.simps[of _ _ _ s])
  next
    case c: True
    show ?thesis
    proof (cases "walk_body thr yp np s")
      case None
      from c have "2 \<le> walk_measure s" unfolding walk_cond_def walk_measure_def by linarith
      with c None show ?thesis by (simp add: walk_iterations.simps[of _ _ _ s])
    next
      case (Some s')
      from "1.IH" [OF c Some] walk_body_measure [OF c Some] c Some
      show ?thesis by (simp add: walk_iterations.simps[of _ _ _ s])
    qed
  qed
qed

subsection \<open>Quantities\<close>








subsection \<open>Emitted quantities are positive\<close>

lemma walk_loop_quantity_pos:
  assumes "\<forall>l\<in>set (levels s). 0 < quantity l"
  shows "\<forall>l\<in>set (walk_loop thr yp np s). 0 < quantity l"
  using assms
proof (induction thr yp np s rule: walk_loop.induct)
  case (1 thr yp np s)
  show ?case
  proof (cases "walk_cond s")
    case False
    with "1.prems" show ?thesis by (simp add: walk_loop.simps [of _ _ _ s])
  next
    case c: True
    show ?thesis
    proof (cases "walk_body thr yp np s")
      case None
      with c "1.prems" show ?thesis by (simp add: walk_loop.simps [of _ _ _ s])
    next
      case (Some s')
      from walk_body_levels(2) [OF Some] "1.prems"
      have "\<forall>l\<in>set (levels s'). 0 < quantity l" by auto
      from "1.IH" [OF c Some this] c Some show ?thesis
        by (simp add: walk_loop.simps [of _ _ _ s])
    qed
  qed
qed

text \<open>The equations that evaluate the walk on given ladders.\<close>

lemmas walk_eval = walk_orderbook_def walk_init_def walk_loop.simps walk_cond_def
          walk_body_def py_min_def Let_def

section \<open>Claims about the walk\<close>

text \<open>
  C1. When both ladders are sorted ascending by price and all sizes are at least 0, the
  levels the walk emits have non-increasing \<^verbatim>\<open>profit_percentage\<close>, each of them is at
  least the threshold, and the walk stops at the first pair of heads whose gross
  profit is below the threshold: in such a state the loop returns what it has, and
  the output is the output of a walk with any lower threshold \<open>thr0\<close>, cut before its
  first level below \<open>thr\<close>.
\<close>

theorem walk_orderbook_profit_monotone:
  assumes "sorted (map price ya)" and "sorted (map price na)"
    and "\<forall>l\<in>set ya. 0 \<le> size_level l" and "\<forall>l\<in>set na. 0 \<le> size_level l"
  shows "sorted_wrt (\<lambda>a b. profit_percentage b \<le> profit_percentage a)
           (walk_orderbook thr ya na yp np)
       \<and> (\<forall>l\<in>set (walk_orderbook thr ya na yp np). thr \<le> profit_percentage l)
       \<and> (\<forall>s. walk_cond s \<and> walk_gross s < thr \<longrightarrow> walk_loop thr yp np s = levels s)
       \<and> (\<forall>thr0\<le>thr. walk_orderbook thr ya na yp np =
            takeWhile (\<lambda>l. thr \<le> profit_percentage l) (walk_orderbook thr0 ya na yp np))"
proof -
  let ?s = "walk_init ya na"
  have sy: "sorted (map fst (yes_remaining ?s))" and sn: "sorted (map fst (no_remaining ?s))"
    using assms(1,2) by (simp_all add: walk_init_prices)
  from walk_loop_decomp [OF sy sn, of thr yp np]
  have "sorted_wrt (\<lambda>a b. profit_percentage b \<le> profit_percentage a)
           (walk_orderbook thr ya na yp np)"
    and "\<forall>l\<in>set (walk_orderbook thr ya na yp np). thr \<le> profit_percentage l"
    by (auto simp: walk_orderbook_init walk_init_prices)
  moreover have "walk_loop thr yp np s = levels s" if "walk_cond s" "walk_gross s < thr" for s
  proof -
    from that(2) have "walk_body thr yp np s = None" by (simp add: walk_body_None)
    with that(1) show ?thesis by (simp add: walk_loop.simps [of _ _ _ s])
  qed
  moreover have "\<forall>thr0\<le>thr. walk_orderbook thr ya na yp np =
            takeWhile (\<lambda>l. thr \<le> profit_percentage l) (walk_orderbook thr0 ya na yp np)"
    using walk_loop_takeWhile [OF sy sn, of _ thr yp np]
    by (simp add: walk_orderbook_init walk_init_prices)
  ultimately show ?thesis by blast
qed

text \<open>
  The theorem at two yes levels (0.25 x 50, 0.375 x 10) against one no level
  (0.5 x 60): thresholds 0.02 and 0.2 give two levels and one level.
\<close>

theorem walk_orderbook_profit_monotone_witness:
  "sorted_wrt (\<lambda>a b. profit_percentage b \<le> profit_percentage a)
     (walk_orderbook (20/100)
        [\<lparr>price = 1/4, size_level = 50\<rparr>, \<lparr>price = 3/8, size_level = 10\<rparr>]
        [\<lparr>price = 1/2, size_level = 60\<rparr>] KALSHI POLYMARKET)
   \<and> walk_orderbook (20/100)
        [\<lparr>price = 1/4, size_level = 50\<rparr>, \<lparr>price = 3/8, size_level = 10\<rparr>]
        [\<lparr>price = 1/2, size_level = 60\<rparr>] KALSHI POLYMARKET
     = takeWhile (\<lambda>l. 20/100 \<le> profit_percentage l)
        (walk_orderbook (2/100)
           [\<lparr>price = 1/4, size_level = 50\<rparr>, \<lparr>price = 3/8, size_level = 10\<rparr>]
           [\<lparr>price = 1/2, size_level = 60\<rparr>] KALSHI POLYMARKET)
   \<and> map profit_percentage
        (walk_orderbook (2/100)
           [\<lparr>price = 1/4, size_level = 50\<rparr>, \<lparr>price = 3/8, size_level = 10\<rparr>]
           [\<lparr>price = 1/2, size_level = 60\<rparr>] KALSHI POLYMARKET) = [1/4, 1/8]"
proof -
  let ?ya = "[\<lparr>price = 1/4, size_level = 50\<rparr>, \<lparr>price = 3/8, size_level = 10\<rparr>]"
  let ?na = "[\<lparr>price = 1/2, size_level = 60\<rparr>]"
  have h1: "sorted (map price ?ya)" and h2: "sorted (map price ?na)"
    and h3: "\<forall>l\<in>set ?ya. 0 \<le> size_level l" and h4: "\<forall>l\<in>set ?na. 0 \<le> size_level l"
    by simp_all
  note t = walk_orderbook_profit_monotone [OF h1 h2 h3 h4, of "20/100" KALSHI POLYMARKET]
  from t have a: "sorted_wrt (\<lambda>a b. profit_percentage b \<le> profit_percentage a)
     (walk_orderbook (20/100) ?ya ?na KALSHI POLYMARKET)" by (rule conjunct1)
  from t have "\<forall>thr0\<le>20/100. walk_orderbook (20/100) ?ya ?na KALSHI POLYMARKET =
            takeWhile (\<lambda>l. 20/100 \<le> profit_percentage l)
              (walk_orderbook thr0 ?ya ?na KALSHI POLYMARKET)" by blast
  from this [rule_format, of "2/100"]
  have b: "walk_orderbook (20/100) ?ya ?na KALSHI POLYMARKET =
            takeWhile (\<lambda>l. 20/100 \<le> profit_percentage l)
              (walk_orderbook (2/100) ?ya ?na KALSHI POLYMARKET)" by simp
  have c: "map profit_percentage (walk_orderbook (2/100) ?ya ?na KALSHI POLYMARKET)
             = [1/4, 1/8]"
    by (simp add: walk_orderbook_def walk_init_def walk_loop.simps walk_cond_def
          walk_body_def py_min_def Let_def)
  from a b c show ?thesis by (intro conjI)
qed



text \<open>
  C8. Scenario B: yes asks (0.48, 20), (0.50, 30), no asks (0.50, 40), threshold 0.02.
  The walk returns exactly one level, of quantity 20, total cost 0.98 and profit
  0.02; the state after the first pass has \<^verbatim>\<open>yes_idx = 1\<close> and \<^verbatim>\<open>no_idx = 0\<close>, its heads
  cost 0.50 + 0.50, and the second pass ends in \<^verbatim>\<open>break\<close>.
\<close>

theorem walk_orderbook_scenario_B:
  "walk_orderbook (2/100)
     [\<lparr>price = 48/100, size_level = 20\<rparr>, \<lparr>price = 50/100, size_level = 30\<rparr>]
     [\<lparr>price = 50/100, size_level = 40\<rparr>] KALSHI POLYMARKET
   = [\<lparr>buy_yes_platform = KALSHI, buy_yes_price = 48/100,
       buy_no_platform = POLYMARKET, buy_no_price = 50/100,
       quantity = 20, total_cost = 98/100, profit_percentage = 2/100,
       max_profit_dollars = 20 * (2/100)\<rparr>]
   \<and> walk_body (2/100) KALSHI POLYMARKET
       (walk_init [\<lparr>price = 48/100, size_level = 20\<rparr>, \<lparr>price = 50/100, size_level = 30\<rparr>]
                  [\<lparr>price = 50/100, size_level = 40\<rparr>])
     = Some \<lparr>yes_remaining = [(48/100, 0), (50/100, 30)],
             no_remaining = [(50/100, 20)],
             yes_idx = 1, no_idx = 0,
             levels = [\<lparr>buy_yes_platform = KALSHI, buy_yes_price = 48/100,
                        buy_no_platform = POLYMARKET, buy_no_price = 50/100,
                        quantity = 20, total_cost = 98/100, profit_percentage = 2/100,
                        max_profit_dollars = 20 * (2/100)\<rparr>]\<rparr>
   \<and> walk_gross \<lparr>yes_remaining = [(48/100, 0), (50/100, 30)],
                  no_remaining = [(50/100, 20)],
                  yes_idx = 1, no_idx = 0, levels = []\<rparr> = 0
   \<and> walk_body (2/100) KALSHI POLYMARKET
       \<lparr>yes_remaining = [(48/100, 0), (50/100, 30)],
        no_remaining = [(50/100, 20)],
        yes_idx = 1, no_idx = 0,
        levels = [\<lparr>buy_yes_platform = KALSHI, buy_yes_price = 48/100,
                   buy_no_platform = POLYMARKET, buy_no_price = 50/100,
                   quantity = 20, total_cost = 98/100, profit_percentage = 2/100,
                   max_profit_dollars = 20 * (2/100)\<rparr>]\<rparr> = None"
proof (intro conjI)
  show "walk_orderbook (2/100)
     [\<lparr>price = 48/100, size_level = 20\<rparr>, \<lparr>price = 50/100, size_level = 30\<rparr>]
     [\<lparr>price = 50/100, size_level = 40\<rparr>] KALSHI POLYMARKET
   = [\<lparr>buy_yes_platform = KALSHI, buy_yes_price = 48/100,
       buy_no_platform = POLYMARKET, buy_no_price = 50/100,
       quantity = 20, total_cost = 98/100, profit_percentage = 2/100,
       max_profit_dollars = 20 * (2/100)\<rparr>]"
    by (simp add: walk_orderbook_def walk_init_def walk_loop.simps walk_cond_def
          walk_body_def py_min_def Let_def)
qed (simp_all add: walk_init_def walk_body_def walk_gross_def py_min_def Let_def)

text \<open>
  C10. The walk ends on every pair of ladders, sorted or not, whatever the sizes:
  \<open>walk_loop\<close> is a total function, the body is entered at most
  \<^verbatim>\<open>len(yes_asks) + len(no_asks)\<close> times, and every completed pass moves an index
  forward. When the taken quantity is positive, one of the two heads is left with
  size 0 after the pass; otherwise one of the heads has a size at most 0.
\<close>

theorem walk_orderbook_terminates:
  "walk_iterations thr yp np (walk_init ya na) \<le> length ya + length na
   \<and> (\<forall>s s'. walk_cond s \<and> walk_body thr yp np s = Some s' \<longrightarrow>
        yes_idx s + no_idx s < yes_idx s' + no_idx s'
        \<and> (0 < py_min (snd (yes_remaining s ! yes_idx s)) (snd (no_remaining s ! no_idx s))
             \<longrightarrow> snd (yes_remaining s' ! yes_idx s) = 0 \<or> snd (no_remaining s' ! no_idx s) = 0)
        \<and> (\<not> 0 < py_min (snd (yes_remaining s ! yes_idx s)) (snd (no_remaining s ! no_idx s))
             \<longrightarrow> snd (yes_remaining s ! yes_idx s) \<le> 0 \<or> snd (no_remaining s ! no_idx s) \<le> 0))"
proof -
  have "walk_iterations thr yp np (walk_init ya na) \<le> walk_measure (walk_init ya na)"
    by (rule walk_iterations_le)
  also have "walk_measure (walk_init ya na) = length ya + length na"
    by (simp add: walk_measure_def walk_init_def)
  finally have a: "walk_iterations thr yp np (walk_init ya na) \<le> length ya + length na" .
  have b: "yes_idx s + no_idx s < yes_idx s' + no_idx s'"
    if "walk_cond s" "walk_body thr yp np s = Some s'" for s s'
    using walk_body_advances(7) [OF that] .
  have c: "snd (yes_remaining s' ! yes_idx s) = 0 \<or> snd (no_remaining s' ! no_idx s) = 0"
    if "walk_cond s" "walk_body thr yp np s = Some s'"
      "0 < py_min (snd (yes_remaining s ! yes_idx s)) (snd (no_remaining s ! no_idx s))" for s s'
    using that
    by (auto simp: walk_body_def walk_cond_def py_min_def Let_def split: prod.splits if_splits)
  have d: "snd (yes_remaining s ! yes_idx s) \<le> 0 \<or> snd (no_remaining s ! no_idx s) \<le> 0"
    if "\<not> 0 < py_min (snd (yes_remaining s ! yes_idx s)) (snd (no_remaining s ! no_idx s))"
    for s :: walk_state
    using that by (auto simp: py_min_def split: if_splits)
  from a b c d show ?thesis by blast
qed

text \<open>
  The theorem at an unsorted yes ladder with a negative and a zero size: the body is
  entered four times, and the first pass skips the negative level.
\<close>

theorem walk_orderbook_terminates_witness:
  "walk_iterations (2/100) KALSHI POLYMARKET
     (walk_init [\<lparr>price = 3/8, size_level = - 5\<rparr>, \<lparr>price = 1/4, size_level = 0\<rparr>,
                 \<lparr>price = 3/8, size_level = 10\<rparr>]
                [\<lparr>price = 1/2, size_level = 4\<rparr>, \<lparr>price = 1/8, size_level = 3\<rparr>])
     \<le> length [\<lparr>price = 3/8, size_level = - 5\<rparr>, \<lparr>price = 1/4, size_level = 0\<rparr>,
                 \<lparr>price = 3/8, size_level = 10\<rparr>]
       + length [\<lparr>price = 1/2, size_level = 4\<rparr>, \<lparr>price = 1/8, size_level = 3\<rparr>]
   \<and> walk_iterations (2/100) KALSHI POLYMARKET
     (walk_init [\<lparr>price = 3/8, size_level = - 5\<rparr>, \<lparr>price = 1/4, size_level = 0\<rparr>,
                 \<lparr>price = 3/8, size_level = 10\<rparr>]
                [\<lparr>price = 1/2, size_level = 4\<rparr>, \<lparr>price = 1/8, size_level = 3\<rparr>]) = 4
   \<and> yes_idx (walk_init [\<lparr>price = 3/8, size_level = - 5\<rparr>] [\<lparr>price = 1/2, size_level = 4\<rparr>])
       + no_idx (walk_init [\<lparr>price = 3/8, size_level = - 5\<rparr>] [\<lparr>price = 1/2, size_level = 4\<rparr>])
     < yes_idx \<lparr>yes_remaining = [(3/8, - 5)], no_remaining = [(1/2, 4)],
                yes_idx = 1, no_idx = 0, levels = []\<rparr>
       + no_idx \<lparr>yes_remaining = [(3/8, - 5)], no_remaining = [(1/2, 4)],
                 yes_idx = 1, no_idx = 0, levels = []\<rparr>"
proof -
  let ?ya = "[\<lparr>price = 3/8, size_level = - 5\<rparr>, \<lparr>price = 1/4, size_level = 0\<rparr>,
                 \<lparr>price = 3/8, size_level = 10\<rparr>]"
  let ?na = "[\<lparr>price = 1/2, size_level = 4\<rparr>, \<lparr>price = 1/8, size_level = 3\<rparr>]"
  let ?s = "walk_init [\<lparr>price = 3/8, size_level = - 5\<rparr>] [\<lparr>price = 1/2, size_level = 4\<rparr>]"
  let ?s' = "\<lparr>yes_remaining = [(3/8, - 5)], no_remaining = [(1/2, 4)],
                yes_idx = 1, no_idx = 0, levels = []\<rparr>"
  note t = walk_orderbook_terminates [of "2/100" KALSHI POLYMARKET ?ya ?na]
  from t have a: "walk_iterations (2/100) KALSHI POLYMARKET (walk_init ?ya ?na)
                    \<le> length ?ya + length ?na" by (rule conjunct1)
  have b: "walk_iterations (2/100) KALSHI POLYMARKET (walk_init ?ya ?na) = 4"
    by (simp add: walk_init_def walk_iterations.simps walk_cond_def walk_body_def
          py_min_def Let_def)
  have c: "walk_cond ?s" by (simp add: walk_cond_def walk_init_def)
  have d: "walk_body (2/100) KALSHI POLYMARKET ?s = Some ?s'"
    by (simp add: walk_init_def walk_body_def py_min_def Let_def)
  from t c d have e: "yes_idx ?s + no_idx ?s < yes_idx ?s' + no_idx ?s'" by blast
  from a b e show ?thesis by (intro conjI)
qed

section \<open>Properties of the matcher\<close>

subsection \<open>Row maximum and its first index\<close>

lemma argsort_spec_stable: "argsort_spec stable_argsort"
  by (simp add: argsort_spec_def stable_argsort_def)

lemma argmax_prefix:
  fixes row :: "real list"
  defines "g \<equiv> \<lambda>k. fold (\<lambda>i best. if row ! best < row ! i then i else best) [0..<k] 0"
  shows "g k \<le> k - 1 \<and> (\<forall>i<k. row ! i \<le> row ! g k)"
proof (induction k)
  case 0
  show ?case by (simp add: g_def)
next
  case (Suc k)
  have step: "g (Suc k) = (if row ! g k < row ! k then k else g k)"
    by (simp add: g_def)
  show ?case
  proof (cases "row ! g k < row ! k")
    case True
    with step have e: "g (Suc k) = k" by simp
    have "\<forall>i<Suc k. row ! i \<le> row ! k"
    proof (intro allI impI)
      fix i assume "i < Suc k"
      then consider "i < k" | "i = k" by linarith
      then show "row ! i \<le> row ! k"
      proof cases
        case 1
        with Suc have "row ! i \<le> row ! g k" by simp
        with True show ?thesis by simp
      qed simp
    qed
    with e show ?thesis by simp
  next
    case False
    with step have e: "g (Suc k) = g k" by simp
    have "\<forall>i<Suc k. row ! i \<le> row ! g k"
    proof (intro allI impI)
      fix i assume "i < Suc k"
      then consider "i < k" | "i = k" by linarith
      then show "row ! i \<le> row ! g k"
      proof cases
        case 1
        with Suc show ?thesis by simp
      next
        case 2
        with False show ?thesis by simp
      qed
    qed
    moreover from Suc have "g k \<le> k" by arith
    ultimately show ?thesis using e by simp
  qed
qed

lemma argmax_first_max:
  assumes "row \<noteq> []"
  shows "argmax_first row < length row" and "\<forall>i<length row. row ! i \<le> row ! argmax_first row"
proof -
  from assms have "0 < length row" by simp
  moreover have "argmax_first row \<le> length row - 1"
    using argmax_prefix [of row "length row"] by (simp add: argmax_first_def)
  ultimately show "argmax_first row < length row" by arith
  show "\<forall>i<length row. row ! i \<le> row ! argmax_first row"
    using argmax_prefix [of row "length row"] by (simp add: argmax_first_def)
qed

lemma argmax_first_unique:
  assumes "j < length row" and "\<forall>i<length row. i \<noteq> j \<longrightarrow> row ! i < row ! j"
  shows "argmax_first row = j"
proof (rule ccontr)
  assume n: "argmax_first row \<noteq> j"
  from assms(1) have ne: "row \<noteq> []" by auto
  note m = argmax_first_max [OF ne]
  from m(1) n assms(2) have "row ! argmax_first row < row ! j" by simp
  moreover from m(2) assms(1) have "row ! j \<le> row ! argmax_first row" by simp
  ultimately show False by simp
qed

lemma np_max_Max: "row \<noteq> [] \<Longrightarrow> np_max row = Max (set row)"
  by (cases row) (simp_all flip: Max.set_eq_fold)

lemma np_max_unique:
  assumes "j < length row" and "\<forall>i<length row. i \<noteq> j \<longrightarrow> row ! i < row ! j"
  shows "np_max row = row ! j"
proof -
  from assms(1) have ne: "row \<noteq> []" by auto
  have "Max (set row) = row ! j"
  proof (rule Max_eqI)
    fix y assume "y \<in> set row"
    then obtain i where "i < length row" "y = row ! i" by (auto simp: in_set_conv_nth)
    with assms(2) show "y \<le> row ! j" by (cases "i = j") force+
  qed (use assms(1) in simp_all)
  with ne show ?thesis by (simp add: np_max_Max)
qed

subsection \<open>The matching loop\<close>

lemma match_step_pair_of:
  "match_step thr K P bpi bs (map (pair_of K P bs) ps, snd ` set ps) i =
     (if of_int thr \<le> bs ! i \<and> bpi ! i \<notin> snd ` set ps
      then (map (pair_of K P bs) (ps @ [(i, bpi ! i)]), snd ` set (ps @ [(i, bpi ! i)]))
      else (map (pair_of K P bs) ps, snd ` set ps))"
  by (simp add: match_step_def pair_of_def Let_def)

lemma foldl_match_step:
  assumes "distinct idxs" and "set idxs \<inter> fst ` set ps = {}"
    and "distinct (map fst ps)" and "distinct (map snd ps)"
    and "\<forall>ij\<in>set ps. snd ij = bpi ! fst ij \<and> of_int thr \<le> bs ! fst ij \<and> fst ij \<in> A"
    and "set idxs \<subseteq> A"
  shows "\<exists>ps'. foldl (match_step thr K P bpi bs) (map (pair_of K P bs) ps, snd ` set ps) idxs
                 = (map (pair_of K P bs) ps', snd ` set ps')
             \<and> distinct (map fst ps') \<and> distinct (map snd ps')
             \<and> (\<forall>ij\<in>set ps'. snd ij = bpi ! fst ij \<and> of_int thr \<le> bs ! fst ij \<and> fst ij \<in> A)"
  using assms
proof (induction idxs arbitrary: ps)
  case Nil
  have "foldl (match_step thr K P bpi bs) (map (pair_of K P bs) ps, snd ` set ps) []
          = (map (pair_of K P bs) ps, snd ` set ps)" by simp
  with Nil.prems(3,4,5) show ?case by blast
next
  case (Cons i idxs)
  show ?case
  proof (cases "of_int thr \<le> bs ! i \<and> bpi ! i \<notin> snd ` set ps")
    case True
    let ?ps = "ps @ [(i, bpi ! i)]"
    have 1: "distinct idxs" using Cons.prems(1) by simp
    have 2: "set idxs \<inter> fst ` set ?ps = {}" using Cons.prems(1,2) by auto
    have 3: "distinct (map fst ?ps)" using Cons.prems(2,3) by auto
    have 4: "distinct (map snd ?ps)" using Cons.prems(4) True by auto
    have 5: "\<forall>ij\<in>set ?ps. snd ij = bpi ! fst ij \<and> of_int thr \<le> bs ! fst ij \<and> fst ij \<in> A"
      using Cons.prems(5,6) True by auto
    have 6: "set idxs \<subseteq> A" using Cons.prems(6) by simp
    have "match_step thr K P bpi bs (map (pair_of K P bs) ps, snd ` set ps) i
            = (map (pair_of K P bs) ?ps, snd ` set ?ps)"
      unfolding match_step_pair_of using True by (rule if_P)
    with Cons.IH [OF 1 2 3 4 5 6] show ?thesis
      by (simp only: foldl_Cons)
  next
    case False
    have 1: "distinct idxs" using Cons.prems(1) by simp
    have 2: "set idxs \<inter> fst ` set ps = {}" using Cons.prems(2) by auto
    have 6: "set idxs \<subseteq> A" using Cons.prems(6) by simp
    have "match_step thr K P bpi bs (map (pair_of K P bs) ps, snd ` set ps) i
            = (map (pair_of K P bs) ps, snd ` set ps)"
      unfolding match_step_pair_of using False by (rule if_not_P)
    with Cons.IH [OF 1 2 Cons.prems(3,4,5) 6] show ?thesis
      by (simp only: foldl_Cons)
  qed
qed

lemma argsort_spec_set:
  assumes "argsort_spec f"
  shows "distinct (f xs)" and "set (f xs) = {..<length xs}"
proof -
  from assms have "\<forall>xs. mset (f xs) = mset [0..<length xs] \<and> sorted (map (\<lambda>i. xs ! i) (f xs))"
    unfolding argsort_spec_def .
  then have m: "mset (f xs) = mset [0..<length xs]" by blast
  have "distinct (f xs) = distinct [0..<length xs]" using m by (rule mset_eq_imp_distinct_iff)
  then show "distinct (f xs)" by simp
  from m have "set (f xs) = set [0..<length xs]" by (rule mset_eq_setD)
  then show "set (f xs) = {..<length xs}" by (simp add: atLeast0LessThan)
qed

lemma find_matches_index_pairs:
  assumes "argsort_spec (np_argsort lib)"
  shows "\<exists>ps bs. find_matches lib thr K P = map (pair_of K P bs) ps
           \<and> distinct (map fst ps) \<and> distinct (map snd ps)
           \<and> (\<forall>ij\<in>set ps. fst ij < length K \<and> snd ij < length P \<and> of_int thr \<le> bs ! fst ij)"
proof (cases "K = [] \<or> P = []")
  case True
  then have "find_matches lib thr K P = map (pair_of K P []) []"
    by (simp add: find_matches_def)
  then show ?thesis by (intro exI [of _ "[]"]) simp
next
  case False
  define scores where "scores = cdist lib (map (normalized_title lib) K) (map (normalized_title lib) P)"
  define bpi where "bpi = map argmax_first scores"
  define bs where "bs = map np_max scores"
  define idxs where "idxs = rev (np_argsort lib bs)"
  have fm: "find_matches lib thr K P =
              fst (foldl (match_step thr K P bpi bs) ([], {}) idxs)"
    using False by (simp add: find_matches_def Let_def scores_def bpi_def bs_def idxs_def)
  have len: "length bs = length K" by (simp add: bs_def scores_def cdist_def)
  have d: "distinct idxs" and st: "set idxs \<subseteq> {..<length K}"
    using argsort_spec_set [OF assms, of bs] len by (simp_all add: idxs_def)
  have bound: "bpi ! i < length P" if "i < length K" for i
  proof -
    let ?row = "map (\<lambda>p. token_sort_ratio lib (normalized_title lib (K ! i)) p)
                      (map (normalized_title lib) P)"
    have e: "bpi ! i = argmax_first ?row"
      using that by (simp add: bpi_def scores_def cdist_def)
    have "?row \<noteq> []" using False by simp
    then have "argmax_first ?row < length ?row" by (rule argmax_first_max(1))
    with e show ?thesis by simp
  qed
  have "\<exists>ps'. foldl (match_step thr K P bpi bs)
                 (map (pair_of K P bs) [], snd ` set ([] :: (nat \<times> nat) list)) idxs
                 = (map (pair_of K P bs) ps', snd ` set ps')
             \<and> distinct (map fst ps') \<and> distinct (map snd ps')
             \<and> (\<forall>ij\<in>set ps'. snd ij = bpi ! fst ij \<and> of_int thr \<le> bs ! fst ij
                    \<and> fst ij \<in> {..<length K})"
    by (rule foldl_match_step [where ps = "[]" and A = "{..<length K}", OF d _ _ _ _ st]) simp_all
  then obtain ps' where r: "foldl (match_step thr K P bpi bs) ([], {}) idxs
                 = (map (pair_of K P bs) ps', snd ` set ps')"
    "distinct (map fst ps')" "distinct (map snd ps')"
    and r4: "\<forall>ij\<in>set ps'. snd ij = bpi ! fst ij \<and> of_int thr \<le> bs ! fst ij \<and> fst ij \<in> {..<length K}"
    by auto
  have b: "\<forall>ij\<in>set ps'. fst ij < length K \<and> snd ij < length P \<and> of_int thr \<le> bs ! fst ij"
  proof
    fix ij assume "ij \<in> set ps'"
    with r4 have "snd ij = bpi ! fst ij" "of_int thr \<le> bs ! fst ij" "fst ij < length K" by auto
    with bound [of "fst ij"] show "fst ij < length K \<and> snd ij < length P \<and> of_int thr \<le> bs ! fst ij"
      by simp
  qed
  have "find_matches lib thr K P = map (pair_of K P bs) ps'" using fm r(1) by simp
  with r(2,3) b show ?thesis by blast
qed

lemma distinct_map_nth:
  assumes "distinct (map f xs)" and "distinct is" and "\<forall>i\<in>set is. i < length xs"
  shows "distinct (map (\<lambda>i. f (xs ! i)) is)"
proof -
  have "inj_on (\<lambda>i. f (xs ! i)) (set is)"
  proof (rule inj_onI)
    fix i j assume "i \<in> set is" "j \<in> set is" "f (xs ! i) = f (xs ! j)"
    with assms(3) have "i < length (map f xs)" "j < length (map f xs)" "map f xs ! i = map f xs ! j"
      by simp_all
    with assms(1) show "i = j" using nth_eq_iff_index_eq [of "map f xs" i j] by blast
  qed
  with assms(2) show ?thesis by (simp add: distinct_map)
qed

lemma argsort_two:
  assumes "argsort_spec f" and "x < y"
  shows "f [y, x] = [1, 0]" and "f [x, y] = [0, 1]"
proof -
  have two: "f xs = [0, 1] \<or> f xs = [1, 0]" if "length xs = 2" for xs
  proof -
    from assms(1) have "\<forall>xs. mset (f xs) = mset [0..<length xs] \<and> sorted (map (\<lambda>i. xs ! i) (f xs))"
      unfolding argsort_spec_def .
    then have m: "mset (f xs) = mset [0..<length xs]" by blast
    from m have "length (f xs) = length [0..<length xs]" by (rule mset_eq_length)
    with that have "length (f xs) = 2" by simp
    then obtain a b where ab: "f xs = [a, b]"
      by (auto simp: length_Suc_conv numeral_2_eq_2)
    from argsort_spec_set [OF assms(1), of xs] that ab
    have "a \<noteq> b" "{a, b} = {..<2}" by auto
    then have "(a = 0 \<and> b = 1) \<or> (a = 1 \<and> b = 0)"
      by (auto simp: lessThan_Suc numeral_2_eq_2 doubleton_eq_iff)
    with ab show ?thesis by auto
  qed
  from assms(1) have srt: "sorted (map (\<lambda>i. xs ! i) (f xs))" for xs
    unfolding argsort_spec_def by blast
  from two [of "[y, x]"] srt [of "[y, x]"] assms(2) show "f [y, x] = [1, 0]" by auto
  from two [of "[x, y]"] srt [of "[x, y]"] assms(2) show "f [x, y] = [0, 1]" by auto
qed

lemma title_row:
  "map (\<lambda>p. token_sort_ratio lib (normalized_title lib k) p) (map (normalized_title lib) P)
     = map (title_score lib k) P"
  by (simp add: title_score_def comp_def)

lemma title_row_comp:
  "token_sort_ratio lib (normalized_title lib k) \<circ> normalized_title lib = title_score lib k"
  by (simp add: title_score_def fun_eq_iff)

lemma title_row_best:
  assumes "j < length P" and "title_score lib k (P ! j) = v"
    and "\<forall>j'<length P. j' \<noteq> j \<longrightarrow> title_score lib k (P ! j') < v"
  shows "argmax_first (map (title_score lib k) P) = j"
    and "np_max (map (title_score lib k) P) = v"
proof -
  let ?row = "map (title_score lib k) P"
  have j: "j < length ?row" using assms(1) by simp
  have u: "\<forall>i<length ?row. i \<noteq> j \<longrightarrow> ?row ! i < ?row ! j"
    using assms by simp
  from argmax_first_unique [OF j u] show "argmax_first ?row = j" .
  from np_max_unique [OF j u] assms(1,2) show "np_max ?row = v" by simp
qed

section \<open>Claims about the matcher\<close>

text \<open>
  C2, as the code has it. Every returned pair has a score of at least the threshold.
  The loop keeps list positions apart, not market identities: each position of
  either input list is used in at most one pair, and when the entries of each input
  list have pairwise different \<^verbatim>\<open>(platform, market_id)\<close>, no market appears in more
  than one pair.
\<close>

theorem find_matches_one_to_one:
  assumes "argsort_spec (np_argsort lib)"
  shows "(\<forall>p\<in>set (find_matches lib threshold K P). of_int threshold \<le> match_score p)
       \<and> (\<exists>ps. map kalshi_market (find_matches lib threshold K P) = map (\<lambda>ij. K ! fst ij) ps
               \<and> map poly_market (find_matches lib threshold K P) = map (\<lambda>ij. P ! snd ij) ps
               \<and> distinct (map fst ps) \<and> distinct (map snd ps)
               \<and> (\<forall>ij\<in>set ps. fst ij < length K \<and> snd ij < length P))
       \<and> (distinct (map market_key K) \<and> distinct (map market_key P) \<longrightarrow>
            distinct (map (\<lambda>p. market_key (kalshi_market p)) (find_matches lib threshold K P))
          \<and> distinct (map (\<lambda>p. market_key (poly_market p)) (find_matches lib threshold K P)))"
proof -
  from find_matches_index_pairs [OF assms, of threshold K P]
  obtain ps bs where r: "find_matches lib threshold K P = map (pair_of K P bs) ps"
    "distinct (map fst ps)" "distinct (map snd ps)"
    "\<forall>ij\<in>set ps. fst ij < length K \<and> snd ij < length P \<and> of_int threshold \<le> bs ! fst ij"
    by blast
  have a: "\<forall>p\<in>set (find_matches lib threshold K P). of_int threshold \<le> match_score p"
    using r(4) by (auto simp: r(1) pair_of_def)
  have k: "map kalshi_market (find_matches lib threshold K P) = map (\<lambda>ij. K ! fst ij) ps"
    and p: "map poly_market (find_matches lib threshold K P) = map (\<lambda>ij. P ! snd ij) ps"
    by (simp_all add: r(1) pair_of_def comp_def)
  have b: "\<exists>ps. map kalshi_market (find_matches lib threshold K P) = map (\<lambda>ij. K ! fst ij) ps
               \<and> map poly_market (find_matches lib threshold K P) = map (\<lambda>ij. P ! snd ij) ps
               \<and> distinct (map fst ps) \<and> distinct (map snd ps)
               \<and> (\<forall>ij\<in>set ps. fst ij < length K \<and> snd ij < length P)"
    using k p r(2,3,4) by blast
  have c: "distinct (map (\<lambda>p. market_key (kalshi_market p)) (find_matches lib threshold K P))"
    if "distinct (map market_key K)"
  proof -
    have "distinct (map (\<lambda>i. market_key (K ! i)) (map fst ps))"
      using that r(2,4) by (intro distinct_map_nth) auto
    then show ?thesis by (simp add: r(1) pair_of_def comp_def)
  qed
  have d: "distinct (map (\<lambda>p. market_key (poly_market p)) (find_matches lib threshold K P))"
    if "distinct (map market_key P)"
  proof -
    have "distinct (map (\<lambda>i. market_key (P ! i)) (map snd ps))"
      using that r(3,4) by (intro distinct_map_nth) auto
    then show ?thesis by (simp add: r(1) pair_of_def comp_def)
  qed
  from c d have "distinct (map market_key K) \<and> distinct (map market_key P) \<longrightarrow>
            distinct (map (\<lambda>p. market_key (kalshi_market p)) (find_matches lib threshold K P))
          \<and> distinct (map (\<lambda>p. market_key (poly_market p)) (find_matches lib threshold K P))"
    by simp
  with a b show ?thesis by (intro conjI)
qed

theorem find_matches_one_to_one_witness:
  "distinct (map (\<lambda>p. market_key (kalshi_market p))
       (find_matches exact_title_library 80
          [market KALSHI ''K1'' ''aaa'', market KALSHI ''K2'' ''bbb'', market KALSHI ''K3'' ''aaa'']
          [market POLYMARKET ''P1'' ''aaa'', market POLYMARKET ''P2'' ''bbb'']))
   \<and> distinct (map (\<lambda>p. market_key (poly_market p))
       (find_matches exact_title_library 80
          [market KALSHI ''K1'' ''aaa'', market KALSHI ''K2'' ''bbb'', market KALSHI ''K3'' ''aaa'']
          [market POLYMARKET ''P1'' ''aaa'', market POLYMARKET ''P2'' ''bbb'']))
   \<and> length (find_matches exact_title_library 80
          [market KALSHI ''K1'' ''aaa'', market KALSHI ''K2'' ''bbb'', market KALSHI ''K3'' ''aaa'']
          [market POLYMARKET ''P1'' ''aaa'', market POLYMARKET ''P2'' ''bbb'']) = 2"
proof -
  let ?K = "[market KALSHI ''K1'' ''aaa'', market KALSHI ''K2'' ''bbb'', market KALSHI ''K3'' ''aaa'']"
  let ?P = "[market POLYMARKET ''P1'' ''aaa'', market POLYMARKET ''P2'' ''bbb'']"
  have h1: "argsort_spec (np_argsort exact_title_library)"
    by (simp add: exact_title_library_def argsort_spec_stable)
  have h2: "distinct (map market_key ?K) \<and> distinct (map market_key ?P)"
    by (simp add: market_key_def market_def)
  note t = find_matches_one_to_one [OF h1, of 80 ?K ?P]
  from t h2 have a: "distinct (map (\<lambda>p. market_key (kalshi_market p)) (find_matches exact_title_library 80 ?K ?P))
     \<and> distinct (map (\<lambda>p. market_key (poly_market p)) (find_matches exact_title_library 80 ?K ?P))"
    by blast
  have b: "length (find_matches exact_title_library 80 ?K ?P) = 2"
    by (simp add: find_matches_def Let_def cdist_def normalized_title_def exact_title_library_def
        stable_argsort_def argmax_first_def match_step_def market_def)
  from a b show ?thesis by simp
qed

text \<open>
  The claim without that condition fails. The Polymarket client gives the id
  \<^verbatim>\<open>""\<close> to every market whose record has no \<^verbatim>\<open>conditionId\<close>; two such markets with
  different titles are matched to two Kalshi markets, and the market
  \<^verbatim>\<open>(POLYMARKET, "")\<close> is in both pairs.
\<close>

lemma find_matches_shared_id_result:
  "find_matches exact_title_library 80
     [market KALSHI ''K1'' ''aaa'', market KALSHI ''K2'' ''bbb'']
     [market POLYMARKET '''' ''aaa'', market POLYMARKET '''' ''bbb'']
   = [\<lparr>kalshi_market = market KALSHI ''K2'' ''bbb'',
       poly_market = market POLYMARKET '''' ''bbb'', match_score = 100\<rparr>,
      \<lparr>kalshi_market = market KALSHI ''K1'' ''aaa'',
       poly_market = market POLYMARKET '''' ''aaa'', match_score = 100\<rparr>]"
  by (simp add: find_matches_def Let_def cdist_def normalized_title_def exact_title_library_def
        stable_argsort_def argmax_first_def match_step_def market_def)

theorem find_matches_shared_id_counterexample:
  "\<not> distinct (map (\<lambda>p. market_key (poly_market p))
       (find_matches exact_title_library 80
          [market KALSHI ''K1'' ''aaa'', market KALSHI ''K2'' ''bbb'']
          [market POLYMARKET '''' ''aaa'', market POLYMARKET '''' ''bbb'']))"
  unfolding find_matches_shared_id_result by (simp add: market_key_def market_def)

text \<open>
  C5. Scenario D, for any list of venue-B markets: when two venue-A markets have the
  same single best match \<open>P ! j\<close>, with scores 90 and 85, and every other B market
  scores lower for each of them (81 is allowed for the second), then with threshold
  80 exactly the 90 pair is returned, in whichever order the two A markets are given.
\<close>

theorem find_matches_greedy_scenario:
  assumes "argsort_spec (np_argsort lib)"
    and "j < length P"
    and "title_score lib a1 (P ! j) = 90" and "title_score lib a2 (P ! j) = 85"
    and "\<forall>j'<length P. j' \<noteq> j \<longrightarrow>
           title_score lib a1 (P ! j') < 90 \<and> title_score lib a2 (P ! j') < 85"
  shows "find_matches lib 80 [a1, a2] P
           = [\<lparr>kalshi_market = a1, poly_market = P ! j, match_score = 90\<rparr>]
       \<and> find_matches lib 80 [a2, a1] P
           = [\<lparr>kalshi_market = a1, poly_market = P ! j, match_score = 90\<rparr>]"
proof -
  from assms(2) have ne: "P \<noteq> []" by auto
  have b1: "argmax_first (map (title_score lib a1) P) = j"
    "np_max (map (title_score lib a1) P) = 90"
    using title_row_best [OF assms(2,3), of ] assms(5) by simp_all
  have b2: "argmax_first (map (title_score lib a2) P) = j"
    "np_max (map (title_score lib a2) P) = 85"
    using title_row_best [OF assms(2,4)] assms(5) by simp_all
  have s: "np_argsort lib [90, 85] = [1, 0]" "np_argsort lib [85, 90] = [0, 1]"
    using argsort_two [OF assms(1), of 85 90] by simp_all
  have "find_matches lib 80 [a1, a2] P
           = [\<lparr>kalshi_market = a1, poly_market = P ! j, match_score = 90\<rparr>]"
    using ne by (simp add: find_matches_def Let_def cdist_def title_row_comp b1 b2 s match_step_def)
  moreover have "find_matches lib 80 [a2, a1] P
           = [\<lparr>kalshi_market = a1, poly_market = P ! j, match_score = 90\<rparr>]"
    using ne by (simp add: find_matches_def Let_def cdist_def title_row_comp b1 b2 s match_step_def)
  ultimately show ?thesis by (intro conjI)
qed

theorem find_matches_greedy_scenario_witness:
  "find_matches scenario_D_library 80
     [market KALSHI ''A1'' ''a1'', market KALSHI ''A2'' ''a2'']
     [market POLYMARKET ''B2'' ''b2'', market POLYMARKET ''B1'' ''b1'']
   = [\<lparr>kalshi_market = market KALSHI ''A1'' ''a1'',
       poly_market = market POLYMARKET ''B1'' ''b1'', match_score = 90\<rparr>]
   \<and> title_score scenario_D_library (market KALSHI ''A2'' ''a2'') (market POLYMARKET ''B2'' ''b2'') = 81"
proof -
  let ?P = "[market POLYMARKET ''B2'' ''b2'', market POLYMARKET ''B1'' ''b1'']"
  let ?a1 = "market KALSHI ''A1'' ''a1''" and ?a2 = "market KALSHI ''A2'' ''a2''"
  have h1: "argsort_spec (np_argsort scenario_D_library)"
    by (simp add: scenario_D_library_def argsort_spec_stable)
  have h2: "1 < length ?P" by simp
  have h3: "title_score scenario_D_library ?a1 (?P ! 1) = 90"
    and h4: "title_score scenario_D_library ?a2 (?P ! 1) = 85"
    by (simp_all add: title_score_def normalized_title_def scenario_D_library_def market_def)
  have h5: "\<forall>j'<length ?P. j' \<noteq> 1 \<longrightarrow>
           title_score scenario_D_library ?a1 (?P ! j') < 90
         \<and> title_score scenario_D_library ?a2 (?P ! j') < 85"
    by (simp add: title_score_def normalized_title_def scenario_D_library_def market_def
          less_Suc_eq)
  have e: "title_score scenario_D_library ?a2 (market POLYMARKET ''B2'' ''b2'') = 81"
    by (simp add: title_score_def normalized_title_def scenario_D_library_def market_def)
  from find_matches_greedy_scenario [OF h1 h2 h3 h4 h5] e show ?thesis by simp
qed

section \<open>Properties of the opportunity list\<close>

lemma opportunity_step_eq:
  "opportunity_step thr kbs pbs opps pair =
     (case pair_opportunity thr kbs pbs pair of None \<Rightarrow> opps | Some opp \<Rightarrow> opps @ [opp])"
  by (simp add: opportunity_step_def pair_opportunity_def Let_def split: option.splits)

lemma foldl_opportunity_step:
  "foldl (opportunity_step thr kbs pbs) opps pairs
     = opps @ List.map_filter (pair_opportunity thr kbs pbs) pairs"
proof (induction pairs arbitrary: opps)
  case Nil
  show ?case by (simp add: List.map_filter_simps)
next
  case (Cons pair pairs)
  let ?F = "opportunity_step thr kbs pbs" and ?g = "pair_opportunity thr kbs pbs"
  have "foldl ?F opps (pair # pairs) = foldl ?F (?F opps pair) pairs" by simp
  also have "\<dots> = ?F opps pair @ List.map_filter ?g pairs" by (rule Cons.IH)
  also have "\<dots> = opps @ List.map_filter ?g (pair # pairs)"
    by (cases "?g pair") (simp_all add: opportunity_step_eq List.map_filter_simps)
  finally show ?case .
qed

lemma calculate_opportunity_Some:
  "calculate_opportunity thr pair kb pb = Some opp \<longleftrightarrow>
     (walk_orderbook thr (yes_asks kb) (no_asks pb) KALSHI POLYMARKET \<noteq> []
        \<or> walk_orderbook thr (yes_asks pb) (no_asks kb) POLYMARKET KALSHI \<noteq> [])
     \<and> opp = \<lparr>opp_kalshi_market = kalshi_market pair,
               opp_poly_market = poly_market pair,
               opp_match_score = match_score pair,
               opp_levels = sort_key (\<lambda>x. - profit_percentage x)
                 (walk_orderbook thr (yes_asks kb) (no_asks pb) KALSHI POLYMARKET
                  @ walk_orderbook thr (yes_asks pb) (no_asks kb) POLYMARKET KALSHI)\<rparr>"
proof -
  have e: "sort_key f xs = [] \<longleftrightarrow> xs = []" for f :: "arbitrage_level \<Rightarrow> real" and xs
    using length_sort [of f xs] by (metis length_0_conv)
  show ?thesis
    by (auto simp: calculate_opportunity_def Let_def e)
qed

lemma pair_opportunity_Some:
  "pair_opportunity thr kbs pbs pair = Some opp \<longleftrightarrow>
     (\<exists>kb pb. kbs (market_id (kalshi_market pair)) = Some kb
        \<and> pbs (market_id (poly_market pair)) = Some pb
        \<and> calculate_opportunity thr pair kb pb = Some opp)"
  by (auto simp: pair_opportunity_def split: option.splits)

lemma set_map_filter_Some:
  "set (List.map_filter g xs) = {y. \<exists>x\<in>set xs. g x = Some y}"
  by (induction xs) (auto simp: List.map_filter_simps split: option.splits)

lemma set_find_all_opportunities:
  "set (find_all_opportunities thr pairs kbs pbs)
     = {opp. \<exists>pair\<in>set pairs. pair_opportunity thr kbs pbs pair = Some opp}"
  by (auto simp: find_all_opportunities_def Let_def foldl_opportunity_step set_map_filter_Some)

lemma length_find_all_opportunities:
  "length (find_all_opportunities thr pairs kbs pbs)
     = length (filter (\<lambda>pair. pair_opportunity thr kbs pbs pair \<noteq> None) pairs)"
  by (simp add: find_all_opportunities_def Let_def foldl_opportunity_step List.map_filter_def)


lemma pair_opportunity_iff:
  "pair_opportunity thr kbs pbs pair = Some opp \<longleftrightarrow>
     (\<exists>kb pb. kbs (market_id (kalshi_market pair)) = Some kb
        \<and> pbs (market_id (poly_market pair)) = Some pb
        \<and> (walk_orderbook thr (yes_asks kb) (no_asks pb) KALSHI POLYMARKET \<noteq> []
             \<or> walk_orderbook thr (yes_asks pb) (no_asks kb) POLYMARKET KALSHI \<noteq> [])
        \<and> opp = \<lparr>opp_kalshi_market = kalshi_market pair,
               opp_poly_market = poly_market pair,
               opp_match_score = match_score pair,
               opp_levels = sort_key (\<lambda>x. - profit_percentage x)
                 (walk_orderbook thr (yes_asks kb) (no_asks pb) KALSHI POLYMARKET
                  @ walk_orderbook thr (yes_asks pb) (no_asks kb) POLYMARKET KALSHI)\<rparr>)"
  unfolding pair_opportunity_Some calculate_opportunity_Some by blast

lemma pair_opportunity_SomeE:
  assumes "pair_opportunity thr kbs pbs pair = Some opp"
  obtains kb pb where "kbs (market_id (kalshi_market pair)) = Some kb"
    and "pbs (market_id (poly_market pair)) = Some pb"
    and "walk_orderbook thr (yes_asks kb) (no_asks pb) KALSHI POLYMARKET \<noteq> []
           \<or> walk_orderbook thr (yes_asks pb) (no_asks kb) POLYMARKET KALSHI \<noteq> []"
    and "opp_kalshi_market opp = kalshi_market pair"
    and "opp_poly_market opp = poly_market pair"
    and "opp_match_score opp = match_score pair"
    and "opp_levels opp = sort_key (\<lambda>x. - profit_percentage x)
                 (walk_orderbook thr (yes_asks kb) (no_asks pb) KALSHI POLYMARKET
                  @ walk_orderbook thr (yes_asks pb) (no_asks kb) POLYMARKET KALSHI)"
proof -
  from assms have "\<exists>kb pb. kbs (market_id (kalshi_market pair)) = Some kb
        \<and> pbs (market_id (poly_market pair)) = Some pb
        \<and> (walk_orderbook thr (yes_asks kb) (no_asks pb) KALSHI POLYMARKET \<noteq> []
             \<or> walk_orderbook thr (yes_asks pb) (no_asks kb) POLYMARKET KALSHI \<noteq> [])
        \<and> opp = \<lparr>opp_kalshi_market = kalshi_market pair,
               opp_poly_market = poly_market pair,
               opp_match_score = match_score pair,
               opp_levels = sort_key (\<lambda>x. - profit_percentage x)
                 (walk_orderbook thr (yes_asks kb) (no_asks pb) KALSHI POLYMARKET
                  @ walk_orderbook thr (yes_asks pb) (no_asks kb) POLYMARKET KALSHI)\<rparr>"
    unfolding pair_opportunity_iff .
  then show thesis
  proof (elim exE conjE)
    fix kb pb
    assume 1: "kbs (market_id (kalshi_market pair)) = Some kb"
      and 2: "pbs (market_id (poly_market pair)) = Some pb"
      and 3: "walk_orderbook thr (yes_asks kb) (no_asks pb) KALSHI POLYMARKET \<noteq> []
             \<or> walk_orderbook thr (yes_asks pb) (no_asks kb) POLYMARKET KALSHI \<noteq> []"
      and e: "opp = \<lparr>opp_kalshi_market = kalshi_market pair,
               opp_poly_market = poly_market pair,
               opp_match_score = match_score pair,
               opp_levels = sort_key (\<lambda>x. - profit_percentage x)
                 (walk_orderbook thr (yes_asks kb) (no_asks pb) KALSHI POLYMARKET
                  @ walk_orderbook thr (yes_asks pb) (no_asks kb) POLYMARKET KALSHI)\<rparr>"
    show thesis by (rule that [OF 1 2 3]) (simp_all add: e)
  qed
qed

lemma pair_opportunity_not_None:
  "pair_opportunity thr kbs pbs pair \<noteq> None \<longleftrightarrow>
     (\<exists>kb pb. kbs (market_id (kalshi_market pair)) = Some kb
        \<and> pbs (market_id (poly_market pair)) = Some pb
        \<and> (walk_orderbook thr (yes_asks kb) (no_asks pb) KALSHI POLYMARKET \<noteq> []
             \<or> walk_orderbook thr (yes_asks pb) (no_asks kb) POLYMARKET KALSHI \<noteq> []))"
proof
  assume "pair_opportunity thr kbs pbs pair \<noteq> None"
  then obtain opp where "pair_opportunity thr kbs pbs pair = Some opp" by auto
  then show "\<exists>kb pb. kbs (market_id (kalshi_market pair)) = Some kb
        \<and> pbs (market_id (poly_market pair)) = Some pb
        \<and> (walk_orderbook thr (yes_asks kb) (no_asks pb) KALSHI POLYMARKET \<noteq> []
             \<or> walk_orderbook thr (yes_asks pb) (no_asks kb) POLYMARKET KALSHI \<noteq> [])"
    by (elim pair_opportunity_SomeE) (intro exI conjI)
next
  assume "\<exists>kb pb. kbs (market_id (kalshi_market pair)) = Some kb
        \<and> pbs (market_id (poly_market pair)) = Some pb
        \<and> (walk_orderbook thr (yes_asks kb) (no_asks pb) KALSHI POLYMARKET \<noteq> []
             \<or> walk_orderbook thr (yes_asks pb) (no_asks kb) POLYMARKET KALSHI \<noteq> [])"
  then have "\<exists>opp. pair_opportunity thr kbs pbs pair = Some opp"
    unfolding pair_opportunity_iff by blast
  then show "pair_opportunity thr kbs pbs pair \<noteq> None" by auto
qed

section \<open>Claims about opportunities\<close>

text \<open>
  C7. For every pair of the input list, the result holds an opportunity made from
  that pair exactly when both of its books are in the maps and one of the two walks
  (YES on Kalshi with NO on Polymarket, YES on Polymarket with NO on Kalshi) emits a
  level. A pair with a missing book adds nothing; the function is total and has no
  error result. Every returned opportunity has a non-empty list of levels, and the
  result has one opportunity for each such pair.
\<close>

theorem find_all_opportunities_iff:
  "(\<forall>pair\<in>set pairs.
      (\<exists>opp\<in>set (find_all_opportunities thr pairs kbs pbs).
          opp_kalshi_market opp = kalshi_market pair
        \<and> opp_poly_market opp = poly_market pair
        \<and> opp_match_score opp = match_score pair)
      \<longleftrightarrow>
      (\<exists>kb pb. kbs (market_id (kalshi_market pair)) = Some kb
        \<and> pbs (market_id (poly_market pair)) = Some pb
        \<and> (walk_orderbook thr (yes_asks kb) (no_asks pb) KALSHI POLYMARKET \<noteq> []
             \<or> walk_orderbook thr (yes_asks pb) (no_asks kb) POLYMARKET KALSHI \<noteq> [])))
   \<and> (\<forall>opp\<in>set (find_all_opportunities thr pairs kbs pbs). opp_levels opp \<noteq> [])
   \<and> length (find_all_opportunities thr pairs kbs pbs)
       = length (filter
           (\<lambda>pair. \<exists>kb pb. kbs (market_id (kalshi_market pair)) = Some kb
              \<and> pbs (market_id (poly_market pair)) = Some pb
              \<and> (walk_orderbook thr (yes_asks kb) (no_asks pb) KALSHI POLYMARKET \<noteq> []
                   \<or> walk_orderbook thr (yes_asks pb) (no_asks kb) POLYMARKET KALSHI \<noteq> []))
           pairs)"
proof (intro conjI ballI)
  let ?cond = "\<lambda>pair. \<exists>kb pb. kbs (market_id (kalshi_market pair)) = Some kb
              \<and> pbs (market_id (poly_market pair)) = Some pb
              \<and> (walk_orderbook thr (yes_asks kb) (no_asks pb) KALSHI POLYMARKET \<noteq> []
                   \<or> walk_orderbook thr (yes_asks pb) (no_asks kb) POLYMARKET KALSHI \<noteq> [])"
  show "length (find_all_opportunities thr pairs kbs pbs) = length (filter ?cond pairs)"
    unfolding length_find_all_opportunities pair_opportunity_not_None ..
  {
    fix opp assume "opp \<in> set (find_all_opportunities thr pairs kbs pbs)"
    then obtain pair where o: "pair_opportunity thr kbs pbs pair = Some opp"
      by (auto simp: set_find_all_opportunities)
    from o show "opp_levels opp \<noteq> []"
    proof (rule pair_opportunity_SomeE)
      fix kb pb
      assume w: "walk_orderbook thr (yes_asks kb) (no_asks pb) KALSHI POLYMARKET \<noteq> []
             \<or> walk_orderbook thr (yes_asks pb) (no_asks kb) POLYMARKET KALSHI \<noteq> []"
        and l: "opp_levels opp = sort_key (\<lambda>x. - profit_percentage x)
                 (walk_orderbook thr (yes_asks kb) (no_asks pb) KALSHI POLYMARKET
                  @ walk_orderbook thr (yes_asks pb) (no_asks kb) POLYMARKET KALSHI)"
      from w have "length (opp_levels opp) \<noteq> 0" unfolding l length_sort by simp
      then show ?thesis by simp
    qed
  }
  fix pair assume p: "pair \<in> set pairs"
  show "(\<exists>opp\<in>set (find_all_opportunities thr pairs kbs pbs).
          opp_kalshi_market opp = kalshi_market pair
        \<and> opp_poly_market opp = poly_market pair
        \<and> opp_match_score opp = match_score pair) \<longleftrightarrow> ?cond pair"
  proof
    assume "\<exists>opp\<in>set (find_all_opportunities thr pairs kbs pbs).
          opp_kalshi_market opp = kalshi_market pair
        \<and> opp_poly_market opp = poly_market pair
        \<and> opp_match_score opp = match_score pair"
    then obtain opp pair' where o: "pair_opportunity thr kbs pbs pair' = Some opp"
      and k: "opp_kalshi_market opp = kalshi_market pair"
      and q: "opp_poly_market opp = poly_market pair"
      by (auto simp: set_find_all_opportunities)
    from o show "?cond pair"
    proof (rule pair_opportunity_SomeE)
      fix kb pb
      assume b: "kbs (market_id (kalshi_market pair')) = Some kb"
        "pbs (market_id (poly_market pair')) = Some pb"
        "walk_orderbook thr (yes_asks kb) (no_asks pb) KALSHI POLYMARKET \<noteq> []
             \<or> walk_orderbook thr (yes_asks pb) (no_asks kb) POLYMARKET KALSHI \<noteq> []"
        and f: "opp_kalshi_market opp = kalshi_market pair'"
          "opp_poly_market opp = poly_market pair'"
      from f k q have "kalshi_market pair' = kalshi_market pair"
        "poly_market pair' = poly_market pair" by simp_all
      with b show ?thesis by (intro exI conjI) simp_all
    qed
  next
    assume "?cond pair"
    then have "pair_opportunity thr kbs pbs pair \<noteq> None" unfolding pair_opportunity_not_None .
    then obtain opp where o: "pair_opportunity thr kbs pbs pair = Some opp" by auto
    from o have "opp_kalshi_market opp = kalshi_market pair
        \<and> opp_poly_market opp = poly_market pair
        \<and> opp_match_score opp = match_score pair"
      by (elim pair_opportunity_SomeE) (intro conjI)
    moreover from o p have "opp \<in> set (find_all_opportunities thr pairs kbs pbs)"
      by (auto simp: set_find_all_opportunities)
    ultimately show "\<exists>opp\<in>set (find_all_opportunities thr pairs kbs pbs).
          opp_kalshi_market opp = kalshi_market pair
        \<and> opp_poly_market opp = poly_market pair
        \<and> opp_match_score opp = match_score pair" by blast
  qed
qed

text \<open>
  The theorem at two pairs: both books of the first are present and its first walk
  emits a level (0.25 + 0.5); the Polymarket book of the second is missing.
\<close>

theorem find_all_opportunities_iff_witness:
  "(\<exists>opp\<in>set (find_all_opportunities (2/100) [pair_with_books, pair_without_book]
                   kalshi_books poly_books).
       opp_kalshi_market opp = kalshi_market pair_with_books
     \<and> opp_poly_market opp = poly_market pair_with_books
     \<and> opp_match_score opp = match_score pair_with_books)
   \<and> \<not> (\<exists>opp\<in>set (find_all_opportunities (2/100) [pair_with_books, pair_without_book]
                   kalshi_books poly_books).
       opp_kalshi_market opp = kalshi_market pair_without_book
     \<and> opp_poly_market opp = poly_market pair_without_book
     \<and> opp_match_score opp = match_score pair_without_book)
   \<and> length (find_all_opportunities (2/100) [pair_with_books, pair_without_book]
                   kalshi_books poly_books) = 1"
proof -
  let ?pairs = "[pair_with_books, pair_without_book]"
  let ?cond = "\<lambda>pair. \<exists>kb pb. kalshi_books (market_id (kalshi_market pair)) = Some kb
              \<and> poly_books (market_id (poly_market pair)) = Some pb
              \<and> (walk_orderbook (2/100) (yes_asks kb) (no_asks pb) KALSHI POLYMARKET \<noteq> []
                   \<or> walk_orderbook (2/100) (yes_asks pb) (no_asks kb) POLYMARKET KALSHI \<noteq> [])"
  note t = find_all_opportunities_iff [of ?pairs "2/100" kalshi_books poly_books]
  have c1: "?cond pair_with_books"
    by (simp add: pair_with_books_def kalshi_books_def poly_books_def market_def book_def walk_eval)
  have c2: "\<not> ?cond pair_without_book"
    by (simp add: pair_without_book_def kalshi_books_def poly_books_def market_def)
  from t have a: "\<forall>pair\<in>set ?pairs.
      (\<exists>opp\<in>set (find_all_opportunities (2/100) ?pairs kalshi_books poly_books).
          opp_kalshi_market opp = kalshi_market pair
        \<and> opp_poly_market opp = poly_market pair
        \<and> opp_match_score opp = match_score pair) \<longleftrightarrow> ?cond pair" by (rule conjunct1)
  from t have l: "length (find_all_opportunities (2/100) ?pairs kalshi_books poly_books)
       = length (filter ?cond ?pairs)" by (elim conjE)
  from a c1 have r1: "\<exists>opp\<in>set (find_all_opportunities (2/100) ?pairs kalshi_books poly_books).
       opp_kalshi_market opp = kalshi_market pair_with_books
     \<and> opp_poly_market opp = poly_market pair_with_books
     \<and> opp_match_score opp = match_score pair_with_books" by simp
  from a c2 have r2: "\<not> (\<exists>opp\<in>set (find_all_opportunities (2/100) ?pairs kalshi_books poly_books).
       opp_kalshi_market opp = kalshi_market pair_without_book
     \<and> opp_poly_market opp = poly_market pair_without_book
     \<and> opp_match_score opp = match_score pair_without_book)" by simp
  from c1 c2 have "length (filter ?cond ?pairs) = 1" by simp
  with l have r3: "length (find_all_opportunities (2/100) ?pairs kalshi_books poly_books) = 1"
    by simp
  from r1 r2 r3 show ?thesis by (intro conjI)
qed

section \<open>Claims about input validation\<close>

lemma kalshi_taker_fee_nonpos:
  assumes "contracts \<le> 0" and "0 \<le> p" and "p \<le> 1"
  shows "kalshi_taker_fee contracts p \<le> 0"
proof -
  have a: "0 \<le> p * (1 - p)" using assms(2,3) by simp
  have b: "7 / 100 * real_of_int contracts \<le> 0" using assms(1) by simp
  from b a have "7 / 100 * real_of_int contracts * (p * (1 - p)) \<le> 0"
    by (rule mult_nonpos_nonneg)
  then have "7 / 100 * real_of_int contracts * (p * (1 - p)) * 100 \<le> 0"
    by (rule mult_nonpos_nonneg) simp
  moreover have "7 / 100 * real_of_int contracts * p * (1 - p) * 100
                   = 7 / 100 * real_of_int contracts * (p * (1 - p)) * 100"
    by (simp only: mult.assoc)
  ultimately have "7 / 100 * real_of_int contracts * p * (1 - p) * 100 \<le> 0"
    by (simp only:)
  then have "\<lceil>7 / 100 * real_of_int contracts * p * (1 - p) * 100\<rceil> \<le> 0"
    by (simp add: ceiling_le_zero)
  then show ?thesis
    by (simp add: kalshi_taker_fee_def KALSHI_TAKER_COEFFICIENT_def Let_def)
qed

text \<open>
  C3, as the code has it. Neither function checks its arguments, and neither has an
  error result. The fee of zero contracts is 0, the fee of a non-positive contract
  count at a price in [0, 1] is at most 0, and the walk returns a list for every
  input, in which every level has a positive quantity: a level whose size is not
  positive is passed over.
\<close>

theorem no_input_validation:
  "kalshi_taker_fee 0 p = 0
   \<and> (contracts \<le> 0 \<and> 0 \<le> p \<and> p \<le> 1 \<longrightarrow> kalshi_taker_fee contracts p \<le> 0)
   \<and> (\<forall>l\<in>set (walk_orderbook thr ya na yp np). 0 < quantity l)"
proof (intro conjI impI)
  show "kalshi_taker_fee 0 p = 0"
    by (simp add: kalshi_taker_fee_def KALSHI_TAKER_COEFFICIENT_def)
  show "kalshi_taker_fee contracts p \<le> 0" if "contracts \<le> 0 \<and> 0 \<le> p \<and> p \<le> 1"
    using that by (simp add: kalshi_taker_fee_nonpos)
  show "\<forall>l\<in>set (walk_orderbook thr ya na yp np). 0 < quantity l"
    unfolding walk_orderbook_def by (rule walk_loop_quantity_pos) (simp add: walk_init_def)
qed

text \<open>The theorem at \<^verbatim>\<open>contracts = -5\<close>, \<^verbatim>\<open>price = 0.5\<close> and at a ladder with a negative size.\<close>

theorem no_input_validation_witness:
  "kalshi_taker_fee (- 5) (1/2) \<le> 0
   \<and> kalshi_taker_fee (- 5) (1/2) = - 8 / 100
   \<and> list_all (\<lambda>l. 0 < quantity l)
        (walk_orderbook (2/100)
           [\<lparr>price = 1/4, size_level = - 1\<rparr>, \<lparr>price = 1/4, size_level = 10\<rparr>]
           [\<lparr>price = 1/2, size_level = 10\<rparr>] KALSHI POLYMARKET)"
proof -
  note t = no_input_validation [of "1/2" "- 5" "2/100"
     "[\<lparr>price = 1/4, size_level = - 1\<rparr>, \<lparr>price = 1/4, size_level = 10\<rparr>]"
     "[\<lparr>price = 1/2, size_level = 10\<rparr>]" KALSHI POLYMARKET]
  have h: "(- 5 :: int) \<le> 0 \<and> (0::real) \<le> 1/2 \<and> (1/2 :: real) \<le> 1" by simp
  from t h have a: "kalshi_taker_fee (- 5) (1/2) \<le> 0" by blast
  have b: "kalshi_taker_fee (- 5) (1/2) = - 8 / 100"
    by (simp add: kalshi_taker_fee_def KALSHI_TAKER_COEFFICIENT_def)
  from t have c: "list_all (\<lambda>l. 0 < quantity l)
        (walk_orderbook (2/100)
           [\<lparr>price = 1/4, size_level = - 1\<rparr>, \<lparr>price = 1/4, size_level = 10\<rparr>]
           [\<lparr>price = 1/2, size_level = 10\<rparr>] KALSHI POLYMARKET)"
    unfolding list_all_iff by (elim conjE)
  from a b c show ?thesis by (intro conjI)
qed

text \<open>
  The claim that these calls signal \<^verbatim>\<open>InvalidInput\<close> fails: each of them returns a
  value. The fee of 0 contracts is 0 and of -5 contracts is -0.08; a level of size -1
  is skipped and the walk goes on; a price of -0.5 gives a level of total cost 0 and
  profit 1.
\<close>

theorem invalid_input_counterexample:
  "kalshi_taker_fee 0 (1/2) = 0
   \<and> kalshi_taker_fee (- 5) (1/2) = - 8 / 100
   \<and> walk_orderbook (2/100)
        [\<lparr>price = 1/4, size_level = - 1\<rparr>, \<lparr>price = 1/4, size_level = 10\<rparr>]
        [\<lparr>price = 1/2, size_level = 10\<rparr>] KALSHI POLYMARKET
      = [\<lparr>buy_yes_platform = KALSHI, buy_yes_price = 1/4,
          buy_no_platform = POLYMARKET, buy_no_price = 1/2,
          quantity = 10, total_cost = 3/4, profit_percentage = 1/4,
          max_profit_dollars = 10 * (1/4)\<rparr>]
   \<and> walk_orderbook (2/100)
        [\<lparr>price = - 1/2, size_level = 10\<rparr>]
        [\<lparr>price = 1/2, size_level = 10\<rparr>] KALSHI POLYMARKET
      = [\<lparr>buy_yes_platform = KALSHI, buy_yes_price = - 1/2,
          buy_no_platform = POLYMARKET, buy_no_price = 1/2,
          quantity = 10, total_cost = 0, profit_percentage = 1,
          max_profit_dollars = 10\<rparr>]"
  by (simp add: kalshi_taker_fee_def KALSHI_TAKER_COEFFICIENT_def walk_eval)

section \<open>Determinism\<close>




end
